theory Spec2Isabelle
  imports Complex_Main "HOL-Library.Option_ord"
begin

section \<open>JavaScript values\<close>

text \<open>
  The service handles untyped request data. A JavaScript number is a finite double, one
  of the two infinities, or NaN; every finite double is a rational number, so finite
  numbers are kept exactly as rationals (rounding to a double happens before a value
  reaches the code modelled here). Strings are byte lists (the UTF-8 form of the
  JavaScript string); the code only tests them for emptiness and equality, matches them
  against ASCII patterns and reads decimal digits from them. A \<open>Date\<close> is its time
  value in milliseconds since the epoch. An object lists each of its keys once.
\<close>

datatype number = Finite rat | PosInfinity | NegInfinity | NaN

datatype jsval =
    JUndefined
  | JNull
  | JBool bool
  | JNum number
  | JStr string
  | JDate int
  | JArr "jsval list"
  | JObj "(string \<times> jsval) list"

type_synonym doc = "(string \<times> jsval) list"

text \<open>Property read \<open>o[k]\<close> and the test \<open>k in o\<close>.\<close>

definition obj_get :: "doc \<Rightarrow> string \<Rightarrow> jsval" where
  "obj_get fs k = (case map_of fs k of None \<Rightarrow> JUndefined | Some v \<Rightarrow> v)"

definition has_key :: "doc \<Rightarrow> string \<Rightarrow> bool" where
  "has_key fs k = (map_of fs k \<noteq> None)"

text \<open>Property write \<open>o[k] = v\<close>: an existing key keeps its place, a new key goes last.\<close>

fun obj_set :: "doc \<Rightarrow> string \<Rightarrow> jsval \<Rightarrow> doc" where
  "obj_set [] k v = [(k, v)]"
| "obj_set ((k', v') # fs) k v =
     (if k' = k then (k, v) # fs else (k', v') # obj_set fs k v)"

text \<open>\<open>Number.isInteger\<close> and the comparisons of a number with a finite constant.\<close>

fun is_integer :: "number \<Rightarrow> bool" where
  "is_integer (Finite r) = (of_int \<lfloor>r\<rfloor> = r)"
| "is_integer _ = False"

fun num_lt :: "number \<Rightarrow> rat \<Rightarrow> bool" where
  "num_lt (Finite r) c = (r < c)"
| "num_lt NegInfinity c = True"
| "num_lt _ c = False"

fun num_le :: "number \<Rightarrow> rat \<Rightarrow> bool" where
  "num_le (Finite r) c = (r \<le> c)"
| "num_le NegInfinity c = True"
| "num_le _ c = False"

fun num_gt :: "number \<Rightarrow> rat \<Rightarrow> bool" where
  "num_gt (Finite r) c = (c < r)"
| "num_gt PosInfinity c = True"
| "num_gt _ c = False"

fun num_ge :: "number \<Rightarrow> rat \<Rightarrow> bool" where
  "num_ge (Finite r) c = (c \<le> r)"
| "num_ge PosInfinity c = True"
| "num_ge _ c = False"

section \<open>The zod schema library\<close>

text \<open>
  A schema is a parser: given the path of the value inside the request and the value, it
  returns the normalized value or the list of issues found. An issue carries its zod
  code and the path of the offending field (its message text is left out). All checks of
  a value and all fields of an object are evaluated, and their issues are reported
  together.
\<close>

datatype issue_code = InvalidType | TooSmall | TooBig | InvalidString

datatype issue = Issue (code: issue_code) (path: "string list")

type_synonym zod = "string list \<Rightarrow> jsval \<Rightarrow> issue list + jsval"

datatype string_check = StrMin nat | StrDatetime

datatype number_check = CheckInt | CheckMin rat bool | CheckMax rat bool

text \<open>
  The pattern of \<open>z.string().datetime()\<close> (zod 3.23, no offset, any sub-second
  precision): a calendar date with leap years, \<open>T\<close>, a time of day, an optional
  fraction and the letter \<open>Z\<close>.
\<close>

definition is_digit :: "char \<Rightarrow> bool" where
  "is_digit c = (c \<in> set ''0123456789'')"

definition leap_year_digits :: "char \<Rightarrow> char \<Rightarrow> char \<Rightarrow> char \<Rightarrow> bool" where
  "leap_year_digits a b c d =
     (is_digit a \<and> is_digit b \<and> c \<in> set ''2468'' \<and> d \<in> set ''048''
    \<or> is_digit a \<and> is_digit b \<and> c \<in> set ''13579'' \<and> d \<in> set ''26''
    \<or> is_digit a \<and> is_digit b \<and> c = CHR ''0'' \<and> d \<in> set ''48''
    \<or> a \<in> set ''02468'' \<and> b \<in> set ''048'' \<and> c = CHR ''0'' \<and> d = CHR ''0''
    \<or> a \<in> set ''13579'' \<and> b \<in> set ''26'' \<and> c = CHR ''0'' \<and> d = CHR ''0'')"

definition month_day :: "char \<Rightarrow> char \<Rightarrow> char \<Rightarrow> char \<Rightarrow> bool" where
  "month_day m1 m2 d1 d2 =
     ((m1 = CHR ''0'' \<and> m2 \<in> set ''13578'' \<or> m1 = CHR ''1'' \<and> m2 \<in> set ''02'')
        \<and> (d1 = CHR ''0'' \<and> d2 \<in> set ''123456789''
           \<or> d1 \<in> set ''12'' \<and> is_digit d2
           \<or> d1 = CHR ''3'' \<and> d2 \<in> set ''01'')
    \<or> (m1 = CHR ''0'' \<and> m2 \<in> set ''469'' \<or> m1 = CHR ''1'' \<and> m2 = CHR ''1'')
        \<and> (d1 = CHR ''0'' \<and> d2 \<in> set ''123456789''
           \<or> d1 \<in> set ''12'' \<and> is_digit d2
           \<or> d1 = CHR ''3'' \<and> d2 = CHR ''0'')
    \<or> (m1 = CHR ''0'' \<and> m2 = CHR ''2'')
        \<and> (d1 = CHR ''0'' \<and> d2 \<in> set ''123456789''
           \<or> d1 = CHR ''1'' \<and> is_digit d2
           \<or> d1 = CHR ''2'' \<and> d2 \<in> set ''012345678''))"

definition date_part :: "string \<Rightarrow> bool" where
  "date_part s =
     (case s of
        [y1, y2, y3, y4, p, m1, m2, q, d1, d2] \<Rightarrow>
          p = CHR ''-'' \<and> q = CHR ''-'' \<and>
          (leap_year_digits y1 y2 y3 y4 \<and> [m1, m2, d1, d2] = ''0229''
           \<or> is_digit y1 \<and> is_digit y2 \<and> is_digit y3 \<and> is_digit y4
              \<and> month_day m1 m2 d1 d2)
      | _ \<Rightarrow> False)"

definition time_part :: "string \<Rightarrow> bool" where
  "time_part s =
     (case s of
        [h1, h2, p, n1, n2, q, s1, s2] \<Rightarrow>
          (h1 \<in> set ''01'' \<and> is_digit h2 \<or> h1 = CHR ''2'' \<and> h2 \<in> set ''0123'')
          \<and> p = CHR '':'' \<and> n1 \<in> set ''012345'' \<and> is_digit n2
          \<and> q = CHR '':'' \<and> s1 \<in> set ''012345'' \<and> is_digit s2
      | _ \<Rightarrow> False)"

definition fraction_Z :: "string \<Rightarrow> bool" where
  "fraction_Z s =
     (s = ''Z''
    \<or> (case s of
          c # ds \<Rightarrow> c = CHR ''.'' \<and> takeWhile is_digit ds \<noteq> []
                     \<and> dropWhile is_digit ds = ''Z''
        | [] \<Rightarrow> False))"

definition is_datetime :: "string \<Rightarrow> bool" where
  "is_datetime s =
     (date_part (take 10 s) \<and> take 1 (drop 10 s) = ''T''
      \<and> time_part (take 8 (drop 11 s)) \<and> fraction_Z (drop 19 s))"

fun string_issue :: "string list \<Rightarrow> string \<Rightarrow> string_check \<Rightarrow> issue list" where
  "string_issue p s (StrMin n) = (if length s < n then [Issue TooSmall p] else [])"
| "string_issue p s StrDatetime = (if is_datetime s then [] else [Issue InvalidString p])"

fun number_issue :: "string list \<Rightarrow> number \<Rightarrow> number_check \<Rightarrow> issue list" where
  "number_issue p n CheckInt = (if is_integer n then [] else [Issue InvalidType p])"
| "number_issue p n (CheckMin c inclusive) =
     (if (if inclusive then num_lt n c else num_le n c) then [Issue TooSmall p] else [])"
| "number_issue p n (CheckMax c inclusive) =
     (if (if inclusive then num_gt n c else num_ge n c) then [Issue TooBig p] else [])"

definition z_string :: "string_check list \<Rightarrow> zod" where
  "z_string checks p v =
     (case v of
        JStr s \<Rightarrow>
          (let issues = concat (map (string_issue p s) checks)
           in if issues = [] then Inr v else Inl issues)
      | _ \<Rightarrow> Inl [Issue InvalidType p])"

definition z_number :: "number_check list \<Rightarrow> zod" where
  "z_number checks p v =
     (case v of
        JNum n \<Rightarrow>
          (if n = NaN then Inl [Issue InvalidType p]
           else let issues = concat (map (number_issue p n) checks)
                in if issues = [] then Inr v else Inl issues)
      | _ \<Rightarrow> Inl [Issue InvalidType p])"

definition optional :: "zod \<Rightarrow> zod" where
  "optional inner p v = (if v = JUndefined then Inr JUndefined else inner p v)"

definition transform :: "zod \<Rightarrow> (jsval \<Rightarrow> jsval) \<Rightarrow> zod" where
  "transform inner f p v = (case inner p v of Inl issues \<Rightarrow> Inl issues | Inr x \<Rightarrow> Inr (f x))"

definition pipe :: "zod \<Rightarrow> zod \<Rightarrow> zod" where
  "pipe a b p v = (case a p v of Inl issues \<Rightarrow> Inl issues | Inr x \<Rightarrow> b p x)"

text \<open>
  \<open>z.object\<close> in its default mode (strip): the result is a new object built from
  the keys of the shape only, in the order of the shape; a key is set when its parsed
  value is not \<open>undefined\<close> or when the input has the key.
\<close>

fun parse_shape :: "(string \<times> zod) list \<Rightarrow> string list \<Rightarrow> doc \<Rightarrow> issue list \<times> doc" where
  "parse_shape [] p fs = ([], [])"
| "parse_shape ((k, schema) # shape) p fs =
     (let (issues, out) = parse_shape shape p fs
      in case schema (p @ [k]) (obj_get fs k) of
           Inl e \<Rightarrow> (e @ issues, out)
         | Inr v \<Rightarrow> (issues, if v \<noteq> JUndefined \<or> has_key fs k then (k, v) # out else out))"

definition z_object :: "(string \<times> zod) list \<Rightarrow> zod" where
  "z_object shape p v =
     (case v of
        JObj fs \<Rightarrow>
          (case parse_shape shape p fs of
             (issues, out) \<Rightarrow> if issues = [] then Inr (JObj out) else Inl issues)
      | _ \<Rightarrow> Inl [Issue InvalidType p])"

text \<open>
  \<open>parseInt(s, 10)\<close>: leading white space is skipped, one sign is read, then the
  longest run of decimal digits; whatever follows the digits is ignored. Without a digit
  the result is NaN. The white space of JavaScript is given in its UTF-8 form. (A run of
  digits too long for a double is kept exact here; such a value is far above every bound
  the schema compares it with.)
\<close>

definition ascii_ws :: "char list" where
  "ascii_ws = [CHR 0x09, CHR 0x0A, CHR 0x0B, CHR 0x0C, CHR 0x0D, CHR 0x20]"

definition wide_ws :: "string list" where
  "wide_ws =
     [[CHR 0xE1, CHR 0x9A, CHR 0x80]] @
     map (\<lambda>c. [CHR 0xE2, CHR 0x80, c])
       [CHR 0x80, CHR 0x81, CHR 0x82, CHR 0x83, CHR 0x84, CHR 0x85, CHR 0x86, CHR 0x87,
        CHR 0x88, CHR 0x89, CHR 0x8A, CHR 0xA8, CHR 0xA9, CHR 0xAF] @
     [[CHR 0xE2, CHR 0x81, CHR 0x9F], [CHR 0xE3, CHR 0x80, CHR 0x80],
      [CHR 0xEF, CHR 0xBB, CHR 0xBF]]"

definition ws_width :: "string \<Rightarrow> nat" where
  "ws_width s =
     (if take 1 s \<in> set (map (\<lambda>c. [c]) ascii_ws) then 1
      else if take 2 s = [CHR 0xC2, CHR 0xA0] then 2
      else if take 3 s \<in> set wide_ws then 3
      else 0)"

function trim_start :: "string \<Rightarrow> string" where
  "trim_start s = (if ws_width s = 0 then s else trim_start (drop (ws_width s) s))"
  by pat_completeness auto
termination
proof (relation "measure length")
  show "wf (measure length)" by simp
next
  fix s :: string
  assume "ws_width s \<noteq> 0"
  moreover have "ws_width [] = 0"
    by (simp add: ws_width_def ascii_ws_def wide_ws_def)
  ultimately have "s \<noteq> []" by auto
  with \<open>ws_width s \<noteq> 0\<close> show "(drop (ws_width s) s, s) \<in> measure length"
    by simp
qed

definition digit_val :: "char \<Rightarrow> int" where
  "digit_val c = int (of_char c) - 48"

definition decimal :: "string \<Rightarrow> int" where
  "decimal ds = foldl (\<lambda>a c. 10 * a + digit_val c) 0 ds"

definition parseInt10 :: "string \<Rightarrow> number" where
  "parseInt10 s =
     (let S = trim_start s;
          sign = (if take 1 S = ''-'' then - 1 else 1);
          S = (if take 1 S = ''-'' \<or> take 1 S = ''+'' then drop 1 S else S);
          Z = takeWhile is_digit S
      in if Z = [] then NaN else Finite (of_int (sign * decimal Z)))"

section \<open>The Date constructor\<close>

text \<open>
  \<open>new Date(s)\<close> for a string of the datetime pattern above, as its time value in
  milliseconds since the epoch: the year, month, day, hour, minute and second are read
  from their places and taken as UTC; of the fraction the first three digits count as
  the milliseconds and any further digit is dropped. Only strings that satisfy
  \<open>is_datetime\<close> reach the place where the handler builds a date; for other strings
  these functions have no meaning.
\<close>

definition days_from_civil :: "int \<Rightarrow> int \<Rightarrow> int \<Rightarrow> int" where
  "days_from_civil y m d =
     (let y' = (if m \<le> 2 then y - 1 else y);
          era = y' div 400;
          yoe = y' - era * 400;
          mp = (m + 9) mod 12;
          doy = (153 * mp + 2) div 5 + d - 1;
          doe = yoe * 365 + yoe div 4 - yoe div 100 + doy
      in era * 146097 + doe - 719468)"

definition field_at :: "string \<Rightarrow> nat \<Rightarrow> nat \<Rightarrow> int" where
  "field_at s i n = decimal (take n (drop i s))"

definition whole_seconds :: "string \<Rightarrow> int" where
  "whole_seconds s =
     ((days_from_civil (field_at s 0 4) (field_at s 5 2) (field_at s 8 2) * 24
         + field_at s 11 2) * 60
        + field_at s 14 2) * 60
       + field_at s 17 2"

definition fraction_digits :: "string \<Rightarrow> string" where
  "fraction_digits s = takeWhile is_digit (drop 20 s)"

definition Date_parse :: "string \<Rightarrow> int" where
  "Date_parse s = whole_seconds s * 1000 + decimal (take 3 (fraction_digits s @ ''000''))"


section \<open>The schemas of the sensor-data routes\<close>

definition sensorDataSchema :: zod where
  "sensorDataSchema = z_object
     [(''wall_id'', z_string [StrMin 1]),
      (''device_count'', z_number [CheckInt, CheckMin 0 True]),
      (''timestamp'', z_number [CheckInt, CheckMin 0 False]),
      (''gateway_id'', optional (z_string [])),
      (''rssi'', optional (z_number [])),
      (''snr'', optional (z_number [])),
      (''received_at'', optional (z_number [CheckInt, CheckMin 0 False]))]"

text \<open>The transform of the \<open>limit\<close> parameter; it only ever receives a string.\<close>

definition parseInt_val :: "jsval \<Rightarrow> jsval" where
  "parseInt_val val = (case val of JStr s \<Rightarrow> JNum (parseInt10 s) | _ \<Rightarrow> JNum NaN)"

definition querySensorDataSchema :: zod where
  "querySensorDataSchema = z_object
     [(''wall_id'', optional (z_string [])),
      (''start_time'', optional (z_string [StrDatetime])),
      (''end_time'', optional (z_string [StrDatetime])),
      (''limit'', optional (pipe (transform (z_string []) parseInt_val)
                     (z_number [CheckInt, CheckMin 1 True, CheckMax 1000 True])))]"

section \<open>The validation middleware\<close>

text \<open>
  What a \<open>try\<close> block can catch: an \<open>Error\<close> object with its message and its stack,
  or any other thrown value. \<open>schema.parse\<close> throws a \<open>ZodError\<close> holding the issues.
\<close>

datatype thrown = Error (message: string) (stack: string) | NonError jsval

datatype parse_thrown = ZodError "issue list" | Other thrown

record response =
  status :: nat
  body :: jsval

definition schema_parse :: "zod \<Rightarrow> jsval \<Rightarrow> parse_thrown + jsval" where
  "schema_parse schema v =
     (case schema [] v of Inl issues \<Rightarrow> Inl (ZodError issues) | Inr x \<Rightarrow> Inr x)"

fun code_name :: "issue_code \<Rightarrow> string" where
  "code_name InvalidType = ''invalid_type''"
| "code_name TooSmall = ''too_small''"
| "code_name TooBig = ''too_big''"
| "code_name InvalidString = ''invalid_string''"

definition json_issue :: "issue \<Rightarrow> jsval" where
  "json_issue i = JObj [(''code'', JStr (code_name (code i))), (''path'', JArr (map JStr (path i)))]"

definition validation_failed :: "issue list \<Rightarrow> response" where
  "validation_failed errors =
     \<lparr>status = 400,
      body = JObj [(''success'', JBool False), (''error'', JStr ''Validation failed''),
                   (''details'', JArr (map json_issue errors))]\<rparr>"

definition failure :: "nat \<Rightarrow> string \<Rightarrow> response" where
  "failure st msg = \<lparr>status = st, body = JObj [(''success'', JBool False), (''error'', JStr msg)]\<rparr>"

text \<open>
  \<open>validateRequest(schema, target)\<close>: on success the request continues with the
  validated data in place of the original (\<open>Inr\<close>), on failure the response is sent
  and the handler is not run (\<open>Inl\<close>).
\<close>

definition validateRequest :: "zod \<Rightarrow> jsval \<Rightarrow> response + jsval" where
  "validateRequest schema dataToValidate =
     (case schema_parse schema dataToValidate of
        Inr validatedData \<Rightarrow> Inr validatedData
      | Inl (ZodError errors) \<Rightarrow> Inl (validation_failed errors)
      | Inl (Other e) \<Rightarrow> Inl (failure 500 ''Internal server error''))"

section \<open>Runtime and storage\<close>

text \<open>
  What one request takes from its environment: \<open>now n\<close> is the result of the
  \<open>n\<close>-th evaluation of \<open>new Date()\<close> during the request; \<open>fault\<close> is what the
  storage operation of the request throws, if it fails; \<open>trace\<close> is the stack that
  the runtime records in an \<open>Error\<close> constructed by the code; \<open>toISOString\<close> and
  \<open>uptime\<close> are the runtime functions of these names.
\<close>

record runtime =
  now :: "nat \<Rightarrow> int"
  fault :: "thrown option"
  trace :: string
  toISOString :: "int \<Rightarrow> string"
  uptime :: number

text \<open>
  The module variable \<open>db\<close> is undefined until \<open>connectDatabase\<close> has run. The
  collection \<open>sensor_readings\<close> is the list of its documents in insertion order; the
  identifier that the driver assigns to an inserted document is its position in the
  list and is not kept as a field.
\<close>

type_synonym db = "doc list option"

definition getDatabase :: "runtime \<Rightarrow> db \<Rightarrow> thrown + doc list" where
  "getDatabase rt db =
     (case db of
        None \<Rightarrow> Inl (Error ''Database not initialized. Call connectDatabase() first.'' (trace rt))
      | Some coll \<Rightarrow> Inr coll)"

definition insertOne :: "runtime \<Rightarrow> doc list \<Rightarrow> doc \<Rightarrow> thrown + nat \<times> doc list" where
  "insertOne rt coll d =
     (case fault rt of Some e \<Rightarrow> Inl e | None \<Rightarrow> Inr (length coll, coll @ [d]))"

text \<open>
  The readings are written by the ingestion route only, so \<open>wall_id\<close> is a string and
  \<open>server_timestamp\<close> a date in every stored document; the comparison of other kinds of
  values by the storage engine is not modelled (a document without a date there sorts
  last and matches no range).
\<close>

definition server_ts :: "doc \<Rightarrow> int option" where
  "server_ts d = (case obj_get d ''server_timestamp'' of JDate t \<Rightarrow> Some t | _ \<Rightarrow> None)"

record range =
  gte :: "int option"
  lte :: "int option"

record find_query =
  q_wall_id :: "string option"
  q_server_timestamp :: "range option"

definition in_range :: "range \<Rightarrow> doc \<Rightarrow> bool" where
  "in_range r d =
     ((gte r \<noteq> None \<or> lte r \<noteq> None)
      \<and> (case gte r of None \<Rightarrow> True
          | Some a \<Rightarrow> (case server_ts d of None \<Rightarrow> False | Some t \<Rightarrow> a \<le> t))
      \<and> (case lte r of None \<Rightarrow> True
          | Some b \<Rightarrow> (case server_ts d of None \<Rightarrow> False | Some t \<Rightarrow> t \<le> b)))"

definition matches :: "find_query \<Rightarrow> doc \<Rightarrow> bool" where
  "matches q d =
     ((case q_wall_id q of None \<Rightarrow> True | Some w \<Rightarrow> obj_get d ''wall_id'' = JStr w)
      \<and> (case q_server_timestamp q of None \<Rightarrow> True | Some r \<Rightarrow> in_range r d))"

text \<open>Sorting by a key, largest first; documents with equal keys keep their order.\<close>

fun insert_desc :: "('a \<Rightarrow> 'k::linorder) \<Rightarrow> 'a \<Rightarrow> 'a list \<Rightarrow> 'a list" where
  "insert_desc f x [] = [x]"
| "insert_desc f x (y # ys) =
     (if f x < f y then y # insert_desc f x ys else x # y # ys)"

definition sort_desc :: "('a \<Rightarrow> 'k::linorder) \<Rightarrow> 'a list \<Rightarrow> 'a list" where
  "sort_desc f xs = foldr (insert_desc f) xs []"

text \<open>
  The limit of a cursor: \<open>0\<close> means no limit, and a negative limit returns as many
  documents as its absolute value.
\<close>

definition cursor_limit :: "int \<Rightarrow> 'a list \<Rightarrow> 'a list" where
  "cursor_limit n xs = (if n = 0 then xs else take (nat \<bar>n\<bar>) xs)"

definition find_sorted :: "runtime \<Rightarrow> doc list \<Rightarrow> find_query \<Rightarrow> int \<Rightarrow> thrown + doc list" where
  "find_sorted rt coll q n =
     (case fault rt of
        Some e \<Rightarrow> Inl e
      | None \<Rightarrow> Inr (cursor_limit n (sort_desc server_ts (filter (matches q) coll))))"

section \<open>POST /api/sensor-data\<close>

text \<open>The fields of an object spread into an object literal.\<close>

definition spread :: "jsval \<Rightarrow> doc" where
  "spread v = (case v of JObj fs \<Rightarrow> fs | _ \<Rightarrow> [])"

definition dataWithServerTime :: "runtime \<Rightarrow> jsval \<Rightarrow> doc" where
  "dataWithServerTime rt sensorData =
     obj_set (obj_set (spread sensorData) ''server_timestamp'' (JDate (now rt 0)))
       ''created_at'' (JDate (now rt 1))"

definition post_try :: "runtime \<Rightarrow> db \<Rightarrow> jsval \<Rightarrow> thrown + response \<times> db" where
  "post_try rt db sensorData =
     (case getDatabase rt db of
        Inl e \<Rightarrow> Inl e
      | Inr coll \<Rightarrow>
          (case insertOne rt coll (dataWithServerTime rt sensorData) of
             Inl e \<Rightarrow> Inl e
           | Inr (insertedId, coll') \<Rightarrow>
               Inr (\<lparr>status = 201,
                     body = JObj [(''success'', JBool True),
                                  (''id'', JNum (Finite (of_nat insertedId))),
                                  (''message'', JStr ''Sensor data received successfully'')]\<rparr>,
                    Some coll')))"

definition post_handler :: "runtime \<Rightarrow> db \<Rightarrow> jsval \<Rightarrow> response \<times> db" where
  "post_handler rt db sensorData =
     (case post_try rt db sensorData of
        Inr r \<Rightarrow> r
      | Inl error \<Rightarrow> (failure 500 ''Failed to save sensor data'', db))"

definition sensorDataRouter_post :: "runtime \<Rightarrow> db \<Rightarrow> jsval \<Rightarrow> response \<times> db" where
  "sensorDataRouter_post rt db req_body =
     (case validateRequest sensorDataSchema req_body of
        Inl resp \<Rightarrow> (resp, db)
      | Inr sensorData \<Rightarrow> post_handler rt db sensorData)"

section \<open>GET /api/sensor-data\<close>

text \<open>
  The validated query as the handler destructures it: three optional strings and an
  optional integer.
\<close>

record query_params =
  wall_id :: "string option"
  start_time :: "string option"
  end_time :: "string option"
  limit :: "int option"

definition str_prop :: "doc \<Rightarrow> string \<Rightarrow> string option" where
  "str_prop fs k = (case obj_get fs k of JStr s \<Rightarrow> Some s | _ \<Rightarrow> None)"

definition int_prop :: "doc \<Rightarrow> string \<Rightarrow> int option" where
  "int_prop fs k = (case obj_get fs k of JNum (Finite r) \<Rightarrow> Some \<lfloor>r\<rfloor> | _ \<Rightarrow> None)"

definition destructure :: "jsval \<Rightarrow> query_params" where
  "destructure req_query =
     \<lparr>wall_id = str_prop (spread req_query) ''wall_id'',
      start_time = str_prop (spread req_query) ''start_time'',
      end_time = str_prop (spread req_query) ''end_time'',
      limit = int_prop (spread req_query) ''limit''\<rparr>"

text \<open>The condition \<open>if (s)\<close> on an optional string: absent and empty are both false.\<close>

definition truthy :: "string option \<Rightarrow> bool" where
  "truthy x = (case x of None \<Rightarrow> False | Some s \<Rightarrow> s \<noteq> [])"

definition effective_limit :: "query_params \<Rightarrow> int" where
  "effective_limit p = (case limit p of None \<Rightarrow> 100 | Some n \<Rightarrow> n)"

definition build_query :: "query_params \<Rightarrow> find_query" where
  "build_query p =
     (let query = \<lparr>q_wall_id = None, q_server_timestamp = None\<rparr>;
          query = (if truthy (wall_id p) then query\<lparr>q_wall_id := wall_id p\<rparr> else query);
          query =
            (if truthy (start_time p) \<or> truthy (end_time p) then
               (let r = \<lparr>gte = None, lte = None\<rparr>;
                    r = (if truthy (start_time p)
                         then r\<lparr>gte := map_option Date_parse (start_time p)\<rparr> else r);
                    r = (if truthy (end_time p)
                         then r\<lparr>lte := map_option Date_parse (end_time p)\<rparr> else r)
                in query\<lparr>q_server_timestamp := Some r\<rparr>)
             else query)
      in query)"

text \<open>The answer \<open>res.json({success: true, count: data.length, data})\<close>.\<close>

definition respond_data :: "doc list \<Rightarrow> response" where
  "respond_data data =
     \<lparr>status = 200,
      body = JObj [(''success'', JBool True),
                   (''count'', JNum (Finite (of_nat (length data)))),
                   (''data'', JArr (map JObj data))]\<rparr>"

definition get_try :: "runtime \<Rightarrow> db \<Rightarrow> query_params \<Rightarrow> thrown + response" where
  "get_try rt db p =
     (case getDatabase rt db of
        Inl e \<Rightarrow> Inl e
      | Inr coll \<Rightarrow>
          (case find_sorted rt coll (build_query p) (effective_limit p) of
             Inl e \<Rightarrow> Inl e
           | Inr data \<Rightarrow> Inr (respond_data data)))"

definition get_handler :: "runtime \<Rightarrow> db \<Rightarrow> query_params \<Rightarrow> response" where
  "get_handler rt db p =
     (case get_try rt db p of
        Inr r \<Rightarrow> r
      | Inl error \<Rightarrow> failure 500 ''Failed to query sensor data'')"

definition sensorDataRouter_get :: "runtime \<Rightarrow> db \<Rightarrow> jsval \<Rightarrow> response" where
  "sensorDataRouter_get rt db req_query =
     (case validateRequest querySensorDataSchema req_query of
        Inl resp \<Rightarrow> resp
      | Inr validated \<Rightarrow> get_handler rt db (destructure validated))"

section \<open>GET /api/sensor-data/walls\<close>

text \<open>
  The \<open>$group\<close> stage reads the documents in order and keeps one accumulator per
  value of \<open>wall_id\<close>: the running maximum of \<open>server_timestamp\<close> and the
  \<open>device_count\<close> of the document seen last. A missing field counts as null.
\<close>

definition field_or_null :: "doc \<Rightarrow> string \<Rightarrow> jsval" where
  "field_or_null d k = (case obj_get d k of JUndefined \<Rightarrow> JNull | v \<Rightarrow> v)"

record wall_group =
  g_id :: jsval
  g_latest_reading :: "int option"
  g_device_count :: jsval

fun group_add :: "doc \<Rightarrow> wall_group list \<Rightarrow> wall_group list" where
  "group_add d [] =
     [\<lparr>g_id = field_or_null d ''wall_id'', g_latest_reading = server_ts d,
       g_device_count = field_or_null d ''device_count''\<rparr>]"
| "group_add d (g # gs) =
     (if g_id g = field_or_null d ''wall_id''
      then g\<lparr>g_latest_reading := max (g_latest_reading g) (server_ts d),
             g_device_count := field_or_null d ''device_count''\<rparr> # gs
      else g # group_add d gs)"

definition group_stage :: "doc list \<Rightarrow> wall_group list" where
  "group_stage coll = foldl (\<lambda>gs d. group_add d gs) [] coll"

record wall_summary =
  ws_wall_id :: jsval
  latest_reading :: "int option"
  device_count :: jsval

definition project_stage :: "wall_group \<Rightarrow> wall_summary" where
  "project_stage g =
     \<lparr>ws_wall_id = g_id g, latest_reading = g_latest_reading g,
      device_count = g_device_count g\<rparr>"

definition walls_pipeline :: "doc list \<Rightarrow> wall_summary list" where
  "walls_pipeline coll = sort_desc latest_reading (map project_stage (group_stage coll))"

definition aggregate :: "runtime \<Rightarrow> doc list \<Rightarrow> thrown + wall_summary list" where
  "aggregate rt coll = (case fault rt of Some e \<Rightarrow> Inl e | None \<Rightarrow> Inr (walls_pipeline coll))"

definition json_wall :: "wall_summary \<Rightarrow> jsval" where
  "json_wall w =
     JObj [(''latest_reading'', (case latest_reading w of None \<Rightarrow> JNull | Some t \<Rightarrow> JDate t)),
           (''device_count'', device_count w),
           (''wall_id'', ws_wall_id w)]"

text \<open>The answer \<open>res.json({success: true, count: walls.length, walls})\<close>.\<close>

definition respond_walls :: "wall_summary list \<Rightarrow> response" where
  "respond_walls walls =
     \<lparr>status = 200,
      body = JObj [(''success'', JBool True),
                   (''count'', JNum (Finite (of_nat (length walls)))),
                   (''walls'', JArr (map json_wall walls))]\<rparr>"

definition walls_try :: "runtime \<Rightarrow> db \<Rightarrow> thrown + response" where
  "walls_try rt db =
     (case getDatabase rt db of
        Inl e \<Rightarrow> Inl e
      | Inr coll \<Rightarrow>
          (case aggregate rt coll of
             Inl e \<Rightarrow> Inl e
           | Inr walls \<Rightarrow> Inr (respond_walls walls)))"

definition sensorDataRouter_get_walls :: "runtime \<Rightarrow> db \<Rightarrow> response" where
  "sensorDataRouter_get_walls rt db =
     (case walls_try rt db of
        Inr r \<Rightarrow> r
      | Inl error \<Rightarrow> failure 500 ''Failed to get walls data'')"

section \<open>GET /api/health\<close>

definition ping :: "runtime \<Rightarrow> doc list \<Rightarrow> thrown + unit" where
  "ping rt coll = (case fault rt of Some e \<Rightarrow> Inl e | None \<Rightarrow> Inr ())"

definition health_try :: "runtime \<Rightarrow> db \<Rightarrow> thrown + response" where
  "health_try rt db =
     (case getDatabase rt db of
        Inl e \<Rightarrow> Inl e
      | Inr coll \<Rightarrow>
          (case ping rt coll of
             Inl e \<Rightarrow> Inl e
           | Inr _ \<Rightarrow>
               Inr \<lparr>status = 200,
                    body = JObj [(''status'', JStr ''healthy''),
                                 (''timestamp'', JStr (toISOString rt (now rt 0))),
                                 (''database'', JStr ''connected''),
                                 (''uptime'', JNum (uptime rt))]\<rparr>))"

definition healthRouter_get :: "runtime \<Rightarrow> db \<Rightarrow> response" where
  "healthRouter_get rt db =
     (case health_try rt db of
        Inr r \<Rightarrow> r
      | Inl error \<Rightarrow>
          \<lparr>status = 503,
           body = JObj [(''status'', JStr ''unhealthy''),
                        (''timestamp'', JStr (toISOString rt (now rt 0))),
                        (''database'', JStr ''disconnected''),
                        (''error'', JStr (case error of Error m s \<Rightarrow> m
                                           | NonError v \<Rightarrow> ''Unknown error''))]\<rparr>)"

section \<open>Example data\<close>

definition example_runtime :: runtime where
  "example_runtime =
     \<lparr>now = (\<lambda>n. 1704067200000 + int n),
      fault = None,
      trace = ''at getDatabase'',
      toISOString = (\<lambda>t. ''2024-01-01T00:00:00.000Z''),
      uptime = Finite 5\<rparr>"

definition example_reading :: jsval where
  "example_reading =
     JObj [(''wall_id'', JStr ''A''), (''device_count'', JNum (Finite 3)),
           (''note'', JStr ''x''), (''timestamp'', JNum (Finite 5)),
           (''server_timestamp'', JStr ''mine'')]"

definition example_stored :: doc where
  "example_stored =
     [(''wall_id'', JStr ''A''), (''device_count'', JNum (Finite 3)),
      (''timestamp'', JNum (Finite 5)),
      (''server_timestamp'', JDate 1704067200000),
      (''created_at'', JDate 1704067200001)]"

definition example_created :: response where
  "example_created =
     \<lparr>status = 201,
      body = JObj [(''success'', JBool True), (''id'', JNum (Finite 0)),
                   (''message'', JStr ''Sensor data received successfully'')]\<rparr>"

definition reading_A1 :: doc where
  "reading_A1 = [(''wall_id'', JStr ''A''), (''device_count'', JNum (Finite 3)),
                 (''timestamp'', JNum (Finite 5)),
                 (''server_timestamp'', JDate 1704067200000),
                 (''created_at'', JDate 1704067200000)]"

definition reading_A2 :: doc where
  "reading_A2 = [(''wall_id'', JStr ''A''), (''device_count'', JNum (Finite 5)),
                 (''timestamp'', JNum (Finite 6)),
                 (''server_timestamp'', JDate 1704153600000),
                 (''created_at'', JDate 1704153600000)]"

definition reading_B1 :: doc where
  "reading_B1 = [(''wall_id'', JStr ''B''), (''device_count'', JNum (Finite 7)),
                 (''timestamp'', JNum (Finite 7)),
                 (''server_timestamp'', JDate 1704100000000),
                 (''created_at'', JDate 1704100000000)]"

definition example_log :: "doc list" where
  "example_log = [reading_A1, reading_A2, reading_B1]"

definition no_params :: query_params where
  "no_params = \<lparr>wall_id = None, start_time = None, end_time = None, limit = None\<rparr>"






definition example_walls :: "wall_summary list" where
  "example_walls =
     [\<lparr>ws_wall_id = JStr ''A'', latest_reading = Some 1704153600000,
       device_count = JNum (Finite 5)\<rparr>,
      \<lparr>ws_wall_id = JStr ''B'', latest_reading = Some 1704100000000,
       device_count = JNum (Finite 7)\<rparr>]"

definition example_fault :: thrown where
  "example_fault = Error ''connect ECONNREFUSED 127.0.0.1:27017''
                     ''MongoNetworkError: connect ECONNREFUSED 127.0.0.1:27017 at Socket.onerror''"

section \<open>Validation of an object\<close>

lemma parse_shape_issues:
  "fst (parse_shape shape p fs) =
     concat (map (\<lambda>(k, schema). case schema (p @ [k]) (obj_get fs k) of Inl e \<Rightarrow> e | Inr v \<Rightarrow> []) shape)"
  by (induction shape) (auto split: prod.splits sum.splits)

lemma string_issue_path: "i \<in> set (string_issue p s c) \<Longrightarrow> path i = p"
  by (cases c) (auto split: if_splits)

lemma number_issue_path: "i \<in> set (number_issue p n c) \<Longrightarrow> path i = p"
  by (cases c) (auto split: if_splits)

lemma z_string_path: "z_string cs p v = Inl e \<Longrightarrow> i \<in> set e \<Longrightarrow> path i = p"
  by (cases v) (auto simp: z_string_def Let_def string_issue_path split: if_splits)

lemma z_number_path: "z_number cs p v = Inl e \<Longrightarrow> i \<in> set e \<Longrightarrow> path i = p"
  by (cases v) (auto simp: z_number_def Let_def number_issue_path split: if_splits)

lemma z_string_nonempty: "z_string cs p v = Inl e \<Longrightarrow> e \<noteq> []"
  by (cases v) (auto simp: z_string_def Let_def split: if_splits)

lemma z_number_nonempty: "z_number cs p v = Inl e \<Longrightarrow> e \<noteq> []"
  by (cases v) (auto simp: z_number_def Let_def split: if_splits)

lemma optional_path:
  assumes "\<And>v e i. inner p v = Inl e \<Longrightarrow> i \<in> set e \<Longrightarrow> path i = p"
    and "optional inner p v = Inl e" and "i \<in> set e"
  shows "path i = p"
  using assms by (auto simp: optional_def split: if_splits)

lemma optional_nonempty:
  assumes "\<And>v e. inner p v = Inl e \<Longrightarrow> e \<noteq> []" and "optional inner p v = Inl e"
  shows "e \<noteq> []"
  using assms by (auto simp: optional_def split: if_splits)

text \<open>One failing field makes the whole object fail.\<close>

lemma z_object_field_fails:
  assumes "(k, schema) \<in> set shape" and "schema (p @ [k]) (obj_get fs k) = Inl e" and "e \<noteq> []"
  shows "\<exists>issues. issues \<noteq> [] \<and> z_object shape p (JObj fs) = Inl issues"
proof -
  have "fst (parse_shape shape p fs) \<noteq> []"
    using assms unfolding parse_shape_issues by force
  then show ?thesis
    by (auto simp: z_object_def split: prod.splits)
qed

text \<open>Every issue of an object is the issue of one of its fields.\<close>

lemma parse_shape_paths:
  assumes own: "\<And>k schema v e i. (k, schema) \<in> set shape \<Longrightarrow> schema (p @ [k]) v = Inl e \<Longrightarrow> i \<in> set e
             \<Longrightarrow> path i = p @ [k]"
    and i: "i \<in> set (fst (parse_shape shape p fs))"
  shows "\<exists>k \<in> fst ` set shape. path i = p @ [k]"
proof -
  from i obtain k schema where ks: "(k, schema) \<in> set shape"
    and mem: "i \<in> set (case schema (p @ [k]) (obj_get fs k) of Inl e \<Rightarrow> e | Inr v \<Rightarrow> [])"
    unfolding parse_shape_issues by auto
  from mem obtain e where "schema (p @ [k]) (obj_get fs k) = Inl e" and "i \<in> set e"
    by (cases "schema (p @ [k]) (obj_get fs k)") auto
  with ks own have "path i = p @ [k]" by blast
  with ks show ?thesis by force
qed

section \<open>Rejected readings\<close>

lemma sensor_issue_paths:
  assumes "sensorDataSchema [] (JObj fs) = Inl e" and "i \<in> set e"
  shows "\<exists>k. path i = [k]"
proof -
  let ?shape = "[(''wall_id'', z_string [StrMin 1]),
      (''device_count'', z_number [CheckInt, CheckMin 0 True]),
      (''timestamp'', z_number [CheckInt, CheckMin 0 False]),
      (''gateway_id'', optional (z_string [])),
      (''rssi'', optional (z_number [])),
      (''snr'', optional (z_number [])),
      (''received_at'', optional (z_number [CheckInt, CheckMin 0 False]))]"
  from assms have "i \<in> set (fst (parse_shape ?shape [] fs))"
    by (auto simp: sensorDataSchema_def z_object_def split: prod.splits if_splits)
  moreover have "path j = [] @ [k]"
    if "(k, schema) \<in> set ?shape" and "schema ([] @ [k]) v = Inl e'" and "j \<in> set e'"
    for k schema v e' j
    using that
    by (auto dest: z_string_path z_number_path elim!: optional_path[rotated])
  ultimately have "\<exists>k \<in> fst ` set ?shape. path i = [] @ [k]"
    by (rule parse_shape_paths[rotated])
  then show ?thesis by auto
qed

lemma post_validation_failure:
  assumes "sensorDataSchema [] b = Inl e"
  shows "sensorDataRouter_post rt db b = (validation_failed e, db)"
  using assms by (simp add: sensorDataRouter_post_def validateRequest_def schema_parse_def)

lemma sensor_field_fails:
  assumes "(k, schema) \<in> set [(''wall_id'', z_string [StrMin 1]),
      (''device_count'', z_number [CheckInt, CheckMin 0 True]),
      (''timestamp'', z_number [CheckInt, CheckMin 0 False]),
      (''gateway_id'', optional (z_string [])),
      (''rssi'', optional (z_number [])),
      (''snr'', optional (z_number [])),
      (''received_at'', optional (z_number [CheckInt, CheckMin 0 False]))]"
    and "schema [k] (obj_get fs k) = Inl e" and "e \<noteq> []"
  shows "\<exists>errors. errors \<noteq> [] \<and> (\<forall>i\<in>set errors. \<exists>k. path i = [k])
           \<and> sensorDataRouter_post rt db (JObj fs) = (validation_failed errors, db)"
proof -
  from z_object_field_fails[OF assms(1), of "[]" fs e] assms(2,3)
  obtain issues where "issues \<noteq> []" and "sensorDataSchema [] (JObj fs) = Inl issues"
    by (auto simp: sensorDataSchema_def)
  then show ?thesis
    using sensor_issue_paths post_validation_failure by blast
qed

text \<open>
  C2. A reading whose \<open>device_count\<close> is below zero, or whose \<open>wall_id\<close> is the
  empty string, or whose \<open>timestamp\<close> is zero or below, is answered by the ingestion
  route with the validation failure (status 400, error "Validation failed", a non-empty
  list of details, each naming the path of one field), and the collection is left as it
  was, whatever the runtime and the state of the storage.
\<close>

theorem post_rejects_invalid_reading:
  assumes "(\<exists>n. obj_get fs ''device_count'' = JNum n \<and> num_lt n 0)
         \<or> obj_get fs ''wall_id'' = JStr []
         \<or> (\<exists>n. obj_get fs ''timestamp'' = JNum n \<and> num_le n 0)"
  shows "\<exists>errors. errors \<noteq> [] \<and> (\<forall>i\<in>set errors. \<exists>k. path i = [k])
           \<and> sensorDataRouter_post rt db (JObj fs) = (validation_failed errors, db)"
  using assms
proof (elim disjE exE conjE)
  fix n assume n: "obj_get fs ''device_count'' = JNum n" "num_lt n 0"
  then have "\<exists>e. e \<noteq> [] \<and> z_number [CheckInt, CheckMin 0 True] [''device_count'']
                 (obj_get fs ''device_count'') = Inl e"
    by (cases n) (auto simp: z_number_def Let_def)
  then show ?thesis
    using sensor_field_fails[of "''device_count''" "z_number [CheckInt, CheckMin 0 True]" fs _ rt db]
    by auto
next
  assume "obj_get fs ''wall_id'' = JStr []"
  then have "\<exists>e. e \<noteq> [] \<and> z_string [StrMin 1] [''wall_id''] (obj_get fs ''wall_id'') = Inl e"
    by (auto simp: z_string_def Let_def)
  then show ?thesis
    using sensor_field_fails[of "''wall_id''" "z_string [StrMin 1]" fs _ rt db]
    by auto
next
  fix n assume n: "obj_get fs ''timestamp'' = JNum n" "num_le n 0"
  then have "\<exists>e. e \<noteq> [] \<and> z_number [CheckInt, CheckMin 0 False] [''timestamp'']
                 (obj_get fs ''timestamp'') = Inl e"
    by (cases n) (auto simp: z_number_def Let_def)
  then show ?thesis
    using sensor_field_fails[of "''timestamp''" "z_number [CheckInt, CheckMin 0 False]" fs _ rt db]
    by auto
qed

theorem post_rejects_invalid_reading_witness:
  "obj_get [(''wall_id'', JStr ''A''), (''device_count'', JNum (Finite (- 1))),
            (''timestamp'', JNum (Finite 5))] ''device_count'' = JNum (Finite (- 1))
   \<and> num_lt (Finite (- 1)) 0
   \<and> (\<exists>errors. errors \<noteq> [] \<and> (\<forall>i\<in>set errors. \<exists>k. path i = [k])
        \<and> sensorDataRouter_post example_runtime (Some [])
            (JObj [(''wall_id'', JStr ''A''), (''device_count'', JNum (Finite (- 1))),
                   (''timestamp'', JNum (Finite 5))])
          = (validation_failed errors, Some []))"
proof -
  let ?fs = "[(''wall_id'', JStr ''A''), (''device_count'', JNum (Finite (- 1))),
              (''timestamp'', JNum (Finite 5))]"
  have h: "obj_get ?fs ''device_count'' = JNum (Finite (- 1)) \<and> num_lt (Finite (- 1)) 0"
    by (simp add: obj_get_def)
  then have "(\<exists>n. obj_get ?fs ''device_count'' = JNum n \<and> num_lt n 0)
         \<or> obj_get ?fs ''wall_id'' = JStr []
         \<or> (\<exists>n. obj_get ?fs ''timestamp'' = JNum n \<and> num_le n 0)"
    by blast
  from post_rejects_invalid_reading[OF this, of example_runtime "Some []"] h
  show ?thesis by blast
qed

text \<open>
  C10. A reading in which \<open>received_at\<close> is present and is not an integer above zero
  (zero, a negative number, a fraction, or a value that is no number at all) is answered
  with the validation failure, and the collection is left as it was: the route accepts
  a reading only if its \<open>received_at\<close>, when present, is an integer above zero.
\<close>

theorem post_rejects_bad_received_at:
  assumes "obj_get fs ''received_at'' \<noteq> JUndefined"
    and "\<not> (\<exists>r. obj_get fs ''received_at'' = JNum (Finite r) \<and> r \<in> \<int> \<and> 0 < r)"
  shows "\<exists>errors. errors \<noteq> [] \<and> (\<forall>i\<in>set errors. \<exists>k. path i = [k])
           \<and> sensorDataRouter_post rt db (JObj fs) = (validation_failed errors, db)"
proof -
  have "\<exists>e. e \<noteq> [] \<and> optional (z_number [CheckInt, CheckMin 0 False]) [''received_at'']
               (obj_get fs ''received_at'') = Inl e"
  proof (cases "obj_get fs ''received_at''")
    case (JNum n)
    with assms(2) show ?thesis
      by (cases n) (auto simp: optional_def z_number_def Let_def Ints_def)
  qed (use assms(1) in \<open>auto simp: optional_def z_number_def\<close>)
  then show ?thesis
    using sensor_field_fails[of "''received_at''"
        "optional (z_number [CheckInt, CheckMin 0 False])" fs _ rt db]
    by auto
qed

theorem post_rejects_bad_received_at_witness:
  "obj_get [(''wall_id'', JStr ''A''), (''device_count'', JNum (Finite 2)),
            (''timestamp'', JNum (Finite 5)), (''received_at'', JNum (Finite 0))]
     ''received_at'' = JNum (Finite 0)
   \<and> (\<exists>errors. errors \<noteq> [] \<and> (\<forall>i\<in>set errors. \<exists>k. path i = [k])
        \<and> sensorDataRouter_post example_runtime (Some [])
            (JObj [(''wall_id'', JStr ''A''), (''device_count'', JNum (Finite 2)),
                   (''timestamp'', JNum (Finite 5)), (''received_at'', JNum (Finite 0))])
          = (validation_failed errors, Some []))"
proof -
  let ?fs = "[(''wall_id'', JStr ''A''), (''device_count'', JNum (Finite 2)),
              (''timestamp'', JNum (Finite 5)), (''received_at'', JNum (Finite 0))]"
  have h: "obj_get ?fs ''received_at'' = JNum (Finite 0)"
    by (simp add: obj_get_def)
  then have h1: "obj_get ?fs ''received_at'' \<noteq> JUndefined"
    and h2: "\<not> (\<exists>r. obj_get ?fs ''received_at'' = JNum (Finite r) \<and> r \<in> \<int> \<and> 0 < r)"
    by simp_all
  from post_rejects_bad_received_at[OF h1 h2, of example_runtime "Some []"] h
  show ?thesis by blast
qed

section \<open>Accepted readings\<close>

lemma obj_get_has_key: "obj_get fs k \<noteq> JUndefined \<Longrightarrow> has_key fs k"
  by (auto simp: obj_get_def has_key_def split: option.splits)

lemma z_string_Inr: "z_string cs p v = Inr x \<Longrightarrow> x = v"
  by (cases v) (auto simp: z_string_def Let_def split: if_splits)

lemma z_number_Inr: "z_number cs p v = Inr x \<Longrightarrow> x = v"
  by (cases v) (auto simp: z_number_def Let_def split: if_splits)

lemma optional_z_string_Inr: "optional (z_string cs) p v = Inr x \<Longrightarrow> x = v"
  by (auto simp: optional_def dest: z_string_Inr split: if_splits)

lemma optional_z_number_Inr: "optional (z_number cs) p v = Inr x \<Longrightarrow> x = v"
  by (auto simp: optional_def dest: z_number_Inr split: if_splits)

lemma optional_z_string_nonempty: "optional (z_string cs) p v = Inl e \<Longrightarrow> e \<noteq> []"
  by (auto simp: optional_def dest: z_string_nonempty split: if_splits)

lemma optional_z_number_nonempty: "optional (z_number cs) p v = Inl e \<Longrightarrow> e \<noteq> []"
  by (auto simp: optional_def dest: z_number_nonempty split: if_splits)

lemma z_object_Inr:
  "z_object shape p b = Inr v \<Longrightarrow>
     \<exists>fs. b = JObj fs \<and> fst (parse_shape shape p fs) = [] \<and> v = JObj (snd (parse_shape shape p fs))"
  by (cases b) (auto simp: z_object_def split: prod.splits if_splits)

lemma parse_shape_passthrough:
  assumes pass: "\<And>k schema v x. (k, schema) \<in> set shape \<Longrightarrow> schema (p @ [k]) v = Inr x \<Longrightarrow> x = v"
    and nonempty: "\<And>k schema v e. (k, schema) \<in> set shape \<Longrightarrow> schema (p @ [k]) v = Inl e \<Longrightarrow> e \<noteq> []"
    and ok: "fst (parse_shape shape p fs) = []"
  shows "snd (parse_shape shape p fs) = map (\<lambda>k. (k, obj_get fs k)) (filter (has_key fs) (map fst shape))"
  using assms
proof (induction shape)
  case Nil
  then show ?case by simp
next
  case (Cons a shape)
  obtain k schema where a: "a = (k, schema)" by (cases a)
  obtain issues out where r: "parse_shape shape p fs = (issues, out)" by (cases "parse_shape shape p fs")
  have pass': "x = v" if "(k, schema) \<in> set shape" and "schema (p @ [k]) v = Inr x"
    for k schema v x
    using Cons.prems(1)[of k schema v x] that by simp
  have nonempty': "e \<noteq> []" if "(k, schema) \<in> set shape" and "schema (p @ [k]) v = Inl e"
    for k schema v e
    using Cons.prems(2)[of k schema v e] that by simp
  show ?case
  proof (cases "schema (p @ [k]) (obj_get fs k)")
    case (Inl e)
    with Cons.prems(2)[of k schema "obj_get fs k" e] a have "e \<noteq> []" by simp
    with Cons.prems(3) a r Inl show ?thesis by simp
  next
    case (Inr x)
    with Cons.prems(1)[of k schema "obj_get fs k" x] a have x: "x = obj_get fs k" by simp
    from Cons.prems(3) a r Inr have "issues = []" by simp
    with r have "fst (parse_shape shape p fs) = []" by simp
    from Cons.IH[OF pass' nonempty' this] r
    have "out = map (\<lambda>k. (k, obj_get fs k)) (filter (has_key fs) (map fst shape))"
      by simp
    with a r Inr x show ?thesis
      by (auto dest: obj_get_has_key)
  qed
qed

lemma sensor_schema_accepts:
  assumes "sensorDataSchema [] b = Inr v"
  shows "\<exists>fs. b = JObj fs \<and> v = JObj (map (\<lambda>k. (k, obj_get fs k)) (filter (has_key fs)
           [''wall_id'', ''device_count'', ''timestamp'', ''gateway_id'', ''rssi'', ''snr'', ''received_at'']))"
proof -
  define shape where "shape = [(''wall_id'', z_string [StrMin 1]),
      (''device_count'', z_number [CheckInt, CheckMin 0 True]),
      (''timestamp'', z_number [CheckInt, CheckMin 0 False]),
      (''gateway_id'', optional (z_string [])),
      (''rssi'', optional (z_number [])),
      (''snr'', optional (z_number [])),
      (''received_at'', optional (z_number [CheckInt, CheckMin 0 False]))]"
  from assms have "z_object shape [] b = Inr v"
    by (simp add: sensorDataSchema_def shape_def)
  from z_object_Inr[OF this] obtain fs where b: "b = JObj fs"
    and ok: "fst (parse_shape shape [] fs) = []" and v: "v = JObj (snd (parse_shape shape [] fs))"
    by blast
  have "snd (parse_shape shape [] fs) = map (\<lambda>k. (k, obj_get fs k)) (filter (has_key fs) (map fst shape))"
  proof (rule parse_shape_passthrough[OF _ _ ok])
    fix k schema v x
    assume "(k, schema) \<in> set shape" and "schema ([] @ [k]) v = Inr x"
    then show "x = v"
      unfolding shape_def
      by (auto dest: z_string_Inr z_number_Inr optional_z_string_Inr optional_z_number_Inr)
  next
    fix k schema v e
    assume "(k, schema) \<in> set shape" and "schema ([] @ [k]) v = Inl e"
    then show "e \<noteq> []"
      unfolding shape_def
      by (auto dest: z_string_nonempty z_number_nonempty optional_z_string_nonempty
                     optional_z_number_nonempty)
  qed
  moreover have "map fst shape = [''wall_id'', ''device_count'', ''timestamp'', ''gateway_id'', ''rssi'', ''snr'', ''received_at'']"
    by (simp add: shape_def)
  ultimately show ?thesis using b v by simp
qed

lemma obj_set_new: "k \<notin> fst ` set fs \<Longrightarrow> obj_set fs k v = fs @ [(k, v)]"
  by (induction fs) auto

lemma post_created:
  assumes "sensorDataRouter_post rt db b = (resp, db')" and "status resp = 201"
  shows "\<exists>fs coll. b = JObj fs \<and> db = Some coll \<and> fault rt = None
           \<and> db' = Some (coll @ [map (\<lambda>k. (k, obj_get fs k)) (filter (has_key fs)
                [''wall_id'', ''device_count'', ''timestamp'', ''gateway_id'', ''rssi'', ''snr'', ''received_at''])
              @ [(''server_timestamp'', JDate (now rt 0)), (''created_at'', JDate (now rt 1))]])"
proof (cases "sensorDataSchema [] b")
  case (Inl e)
  with assms show ?thesis
    by (auto simp: post_validation_failure validation_failed_def)
next
  case (Inr v)
  define keys where "keys = [''wall_id'', ''device_count'', ''timestamp'', ''gateway_id'', ''rssi'', ''snr'', ''received_at'']"
  from sensor_schema_accepts[OF Inr] obtain fs where b: "b = JObj fs"
    and v: "v = JObj (map (\<lambda>k. (k, obj_get fs k)) (filter (has_key fs) keys))"
    unfolding keys_def by blast
  define out where "out = map (\<lambda>k. (k, obj_get fs k)) (filter (has_key fs) keys)"
  have keys: "fst ` set out \<subseteq> set keys" by (auto simp: out_def)
  have "''server_timestamp'' \<notin> set keys" "''created_at'' \<notin> set keys"
    by (simp_all add: keys_def)
  with keys have n1: "''server_timestamp'' \<notin> fst ` set out"
    and n2: "''created_at'' \<notin> fst ` set (out @ [(''server_timestamp'', JDate (now rt 0))])"
    by auto
  have d: "dataWithServerTime rt v = out @ [(''server_timestamp'', JDate (now rt 0)), (''created_at'', JDate (now rt 1))]"
    unfolding dataWithServerTime_def v spread_def out_def[symmetric]
    using obj_set_new[OF n1] obj_set_new[OF n2] by simp
  from assms(1) Inr have h: "post_handler rt db v = (resp, db')"
    by (simp add: sensorDataRouter_post_def validateRequest_def schema_parse_def)
  show ?thesis
  proof (cases db)
    case None
    with h assms(2) show ?thesis
      by (auto simp: post_handler_def post_try_def getDatabase_def failure_def)
  next
    case (Some coll)
    show ?thesis
    proof (cases "fault rt")
      case None
      with h Some d have "db' = Some (coll @ [out @ [(''server_timestamp'', JDate (now rt 0)), (''created_at'', JDate (now rt 1))]])"
        by (auto simp: post_handler_def post_try_def getDatabase_def insertOne_def)
      with b Some None show ?thesis
        unfolding out_def keys_def by simp
    next
      case (Some e)
      with h \<open>db = Some coll\<close> assms(2) show ?thesis
        by (auto simp: post_handler_def post_try_def getDatabase_def insertOne_def failure_def)
    qed
  qed
qed


lemma map_of_tabulate:
  "map_of (map (\<lambda>k. (k, f k)) ks) k = (if k \<in> set ks then Some (f k) else None)"
  by (induction ks) auto

lemma obj_get_tabulate:
  "obj_get (map (\<lambda>k. (k, f k)) ks) k = (if k \<in> set ks then f k else JUndefined)"
  by (simp add: obj_get_def map_of_tabulate)

lemma obj_get_append:
  "obj_get (xs @ ys) k = (if has_key xs k then obj_get xs k else obj_get ys k)"
  by (simp add: obj_get_def has_key_def map_add_def split: option.splits)

lemma has_key_tabulate: "has_key (map (\<lambda>k. (k, f k)) ks) k = (k \<in> set ks)"
  by (simp add: has_key_def map_of_tabulate)

lemma obj_get_absent: "\<not> has_key fs k \<Longrightarrow> obj_get fs k = JUndefined"
  by (simp add: obj_get_def has_key_def)

lemma post_example:
  "sensorDataRouter_post example_runtime (Some []) example_reading
   = (example_created, Some [example_stored])"
  by (simp add: sensorDataRouter_post_def validateRequest_def schema_parse_def
      sensorDataSchema_def z_object_def z_string_def z_number_def optional_def obj_get_def
      has_key_def post_handler_def post_try_def getDatabase_def insertOne_def
      dataWithServerTime_def spread_def example_runtime_def example_reading_def
      example_stored_def example_created_def)

text \<open>
  C7. When the ingestion route answers 201, the request body was an object and exactly
  one document was appended to the collection; the keys of that document are the keys of
  the reading schema that the body has, plus \<open>server_timestamp\<close> and \<open>created_at\<close>,
  each once; every schema field has the value the body gave it. No other field of the
  body is stored.
\<close>

theorem unknown_fields_dropped:
  assumes "sensorDataRouter_post rt db b = (resp, db')" and "status resp = 201"
  shows "\<exists>fs coll d. b = JObj fs \<and> db = Some coll \<and> db' = Some (coll @ [d])
           \<and> distinct (map fst d)
           \<and> set (map fst d) =
               {k \<in> {''wall_id'', ''device_count'', ''timestamp'', ''gateway_id'', ''rssi'',
                      ''snr'', ''received_at''}. has_key fs k}
               \<union> {''server_timestamp'', ''created_at''}
           \<and> (\<forall>k \<in> {''wall_id'', ''device_count'', ''timestamp'', ''gateway_id'', ''rssi'',
                      ''snr'', ''received_at''}. obj_get d k = obj_get fs k)"
proof -
  define keys where "keys = [''wall_id'', ''device_count'', ''timestamp'', ''gateway_id'', ''rssi'', ''snr'', ''received_at'']"
  define stamps where "stamps = [(''server_timestamp'', JDate (now rt 0)), (''created_at'', JDate (now rt 1))]"
  from post_created[OF assms] obtain fs coll where b: "b = JObj fs" and db: "db = Some coll"
    and db': "db' = Some (coll @ [map (\<lambda>k. (k, obj_get fs k)) (filter (has_key fs) keys) @ stamps])"
    unfolding keys_def stamps_def by blast
  define d where "d = map (\<lambda>k. (k, obj_get fs k)) (filter (has_key fs) keys) @ stamps"
  have dk: "distinct keys" and nk: "''server_timestamp'' \<notin> set keys" "''created_at'' \<notin> set keys"
    by (simp_all add: keys_def)
  have fstd: "map fst d = filter (has_key fs) keys @ [''server_timestamp'', ''created_at'']"
    by (simp add: d_def stamps_def comp_def)
  have 1: "distinct (map fst d)"
    unfolding fstd using dk nk by auto
  have 2: "set (map fst d) = {k \<in> set keys. has_key fs k} \<union> {''server_timestamp'', ''created_at''}"
    unfolding fstd by auto
  have 3: "obj_get d k = obj_get fs k" if "k \<in> set keys" for k
  proof (cases "has_key fs k")
    case True
    with that show ?thesis
      by (simp add: d_def obj_get_append obj_get_tabulate has_key_tabulate)
  next
    case False
    from that nk have "obj_get stamps k = JUndefined"
      by (auto simp: stamps_def obj_get_def)
    with False show ?thesis
      by (simp add: d_def obj_get_append has_key_tabulate obj_get_absent)
  qed
  have ks: "set keys = {''wall_id'', ''device_count'', ''timestamp'', ''gateway_id'', ''rssi'', ''snr'', ''received_at''}"
    by (auto simp: keys_def)
  from b db db' 1 2 3 show ?thesis
    unfolding d_def[symmetric] ks by blast
qed

theorem unknown_fields_dropped_witness:
  "sensorDataRouter_post example_runtime (Some []) example_reading
     = (example_created, Some [example_stored])
   \<and> status example_created = 201
   \<and> (\<exists>fs coll d. example_reading = JObj fs \<and> Some [] = Some coll
         \<and> Some [example_stored] = Some (coll @ [d])
         \<and> distinct (map fst d)
         \<and> set (map fst d) =
             {k \<in> {''wall_id'', ''device_count'', ''timestamp'', ''gateway_id'', ''rssi'',
                    ''snr'', ''received_at''}. has_key fs k}
             \<union> {''server_timestamp'', ''created_at''}
         \<and> (\<forall>k \<in> {''wall_id'', ''device_count'', ''timestamp'', ''gateway_id'', ''rssi'',
                    ''snr'', ''received_at''}. obj_get d k = obj_get fs k))"
proof -
  have st: "status example_created = 201"
    by (simp add: example_created_def)
  from unknown_fields_dropped[OF post_example st] post_example st
  show ?thesis by blast
qed

text \<open>
  C6 (as stated, refuted). With a clock that advances by one millisecond between the two
  evaluations of \<open>new Date()\<close>, the stored reading carries two different stamps.
\<close>

theorem stamps_differ_counterexample:
  "sensorDataRouter_post example_runtime (Some []) example_reading
     = (example_created, Some [example_stored])
   \<and> obj_get example_stored ''server_timestamp'' = JDate 1704067200000
   \<and> obj_get example_stored ''created_at'' = JDate 1704067200001
   \<and> obj_get example_stored ''server_timestamp'' \<noteq> obj_get example_stored ''created_at''"
  using post_example by (simp add: example_stored_def obj_get_def)

text \<open>
  C6 (amended). When the ingestion route answers 201, the appended document has
  \<open>server_timestamp\<close> equal to the first and \<open>created_at\<close> equal to the second
  reading of the system clock taken by the handler, whatever the request body contains
  (also when it supplies fields of these names); the two stamps are equal exactly when
  the two clock readings are.
\<close>

theorem stamps_from_clock:
  assumes "sensorDataRouter_post rt db b = (resp, db')" and "status resp = 201"
  shows "\<exists>coll d. db = Some coll \<and> db' = Some (coll @ [d])
           \<and> obj_get d ''server_timestamp'' = JDate (now rt 0)
           \<and> obj_get d ''created_at'' = JDate (now rt 1)
           \<and> (obj_get d ''server_timestamp'' = obj_get d ''created_at'' \<longleftrightarrow> now rt 0 = now rt 1)"
proof -
  define keys where "keys = [''wall_id'', ''device_count'', ''timestamp'', ''gateway_id'', ''rssi'', ''snr'', ''received_at'']"
  from post_created[OF assms] obtain fs coll where db: "db = Some coll"
    and db': "db' = Some (coll @ [map (\<lambda>k. (k, obj_get fs k)) (filter (has_key fs) keys)
                 @ [(''server_timestamp'', JDate (now rt 0)), (''created_at'', JDate (now rt 1))]])"
    unfolding keys_def by blast
  define d where "d = map (\<lambda>k. (k, obj_get fs k)) (filter (has_key fs) keys)
                 @ [(''server_timestamp'', JDate (now rt 0)), (''created_at'', JDate (now rt 1))]"
  have nk: "''server_timestamp'' \<notin> set keys" "''created_at'' \<notin> set keys"
    by (simp_all add: keys_def)
  then have "obj_get d ''server_timestamp'' = JDate (now rt 0)"
    and "obj_get d ''created_at'' = JDate (now rt 1)"
    by (simp_all add: d_def obj_get_append has_key_tabulate obj_get_def[of "[_, _]"])
  with db db' show ?thesis
    unfolding d_def[symmetric] by auto
qed

theorem stamps_from_clock_witness:
  "sensorDataRouter_post example_runtime (Some []) example_reading
     = (example_created, Some [example_stored])
   \<and> status example_created = 201
   \<and> (\<exists>coll d. Some [] = Some coll \<and> Some [example_stored] = Some (coll @ [d])
         \<and> obj_get d ''server_timestamp'' = JDate (now example_runtime 0)
         \<and> obj_get d ''created_at'' = JDate (now example_runtime 1)
         \<and> (obj_get d ''server_timestamp'' = obj_get d ''created_at''
              \<longleftrightarrow> now example_runtime 0 = now example_runtime 1))"
proof -
  have st: "status example_created = 201"
    by (simp add: example_created_def)
  from stamps_from_clock[OF post_example st] post_example st
  show ?thesis by blast
qed

section \<open>Sorting\<close>

lemma set_insert_desc: "set (insert_desc f x ys) = insert x (set ys)"
  by (induction ys) auto

lemma length_insert_desc: "length (insert_desc f x ys) = Suc (length ys)"
  by (induction ys) auto

lemma set_sort_desc: "set (sort_desc f xs) = set xs"
  by (induction xs) (auto simp: sort_desc_def set_insert_desc)

lemma length_sort_desc: "length (sort_desc f xs) = length xs"
  by (induction xs) (auto simp: sort_desc_def length_insert_desc)

lemma sorted_insert_desc:
  "sorted_wrt (\<lambda>a b. f b \<le> f a) ys \<Longrightarrow> sorted_wrt (\<lambda>a b. f b \<le> f a) (insert_desc f x ys)"
  by (induction ys) (auto simp: set_insert_desc)

lemma sorted_sort_desc: "sorted_wrt (\<lambda>a b. f b \<le> f a) (sort_desc f xs)"
  by (induction xs) (auto simp: sort_desc_def sorted_insert_desc)

lemma sort_desc_Cons: "sort_desc f (x # xs) = insert_desc f x (sort_desc f xs)"
  by (simp add: sort_desc_def)

lemma sort_desc_const: "(\<And>x. x \<in> set xs \<Longrightarrow> f x = c) \<Longrightarrow> sort_desc f xs = xs"
proof (induction xs)
  case Nil
  then show ?case by (simp add: sort_desc_def)
next
  case (Cons x xs)
  then have "sort_desc f xs = xs" by simp
  with Cons.prems show ?case
    by (cases xs) (simp_all add: sort_desc_Cons)
qed

section \<open>Validated objects in general\<close>


lemma parse_shape_keys_mem:
  "x \<in> set (snd (parse_shape shape p fs)) \<Longrightarrow> fst x \<in> fst ` set shape"
proof (induction shape arbitrary: x)
  case Nil
  then show ?case by simp
next
  case (Cons a shape)
  obtain k schema where a: "a = (k, schema)" by (cases a)
  obtain issues out where r: "parse_shape shape p fs = (issues, out)"
    by (cases "parse_shape shape p fs")
  from Cons.prems a r have "x \<in> set out \<or> fst x = k"
    by (auto split: sum.splits if_splits)
  with Cons.IH[of x] r a show ?case by auto
qed

lemma parse_shape_keys: "fst ` set (snd (parse_shape shape p fs)) \<subseteq> fst ` set shape"
  using parse_shape_keys_mem by blast

lemma obj_get_Cons: "obj_get ((k', v) # fs) k = (if k = k' then v else obj_get fs k)"
  by (simp add: obj_get_def)

lemma obj_get_missing: "k \<notin> fst ` set fs \<Longrightarrow> obj_get fs k = JUndefined"
  by (simp add: obj_get_def map_of_eq_None_iff[THEN iffD2])

lemma parse_shape_get:
  assumes "distinct (map fst shape)" and "(k, schema) \<in> set shape"
    and "schema (p @ [k]) (obj_get fs k) = Inr x"
  shows "obj_get (snd (parse_shape shape p fs)) k = x"
  using assms
proof (induction shape)
  case Nil
  then show ?case by simp
next
  case (Cons a shape)
  obtain k' schema' where a: "a = (k', schema')" by (cases a)
  obtain issues out where r: "parse_shape shape p fs = (issues, out)"
    by (cases "parse_shape shape p fs")
  from parse_shape_keys[of shape p fs] r have keys: "fst ` set out \<subseteq> fst ` set shape" by simp
  show ?case
  proof (cases "k = k'")
    case True
    with Cons.prems a have s: "schema' = schema"
      by (auto simp: image_iff)
    from Cons.prems(1) a keys True have "k \<notin> fst ` set out" by auto
    then have "obj_get out k = JUndefined" by (rule obj_get_missing)
    with a r s True Cons.prems(3) show ?thesis
      by (auto simp: obj_get_Cons)
  next
    case False
    with Cons.prems a have "(k, schema) \<in> set shape" and "distinct (map fst shape)" by auto
    from Cons.IH[OF this(2,1) Cons.prems(3)] r have "obj_get out k = x" by simp
    with a r False show ?thesis
      by (auto simp: obj_get_Cons split: sum.splits)
  qed
qed

lemma parse_shape_ok_field:
  assumes "fst (parse_shape shape p fs) = []" and "(k, schema) \<in> set shape"
    and "\<And>e. schema (p @ [k]) (obj_get fs k) = Inl e \<Longrightarrow> e \<noteq> []"
  shows "\<exists>x. schema (p @ [k]) (obj_get fs k) = Inr x"
proof (cases "schema (p @ [k]) (obj_get fs k)")
  case (Inl e)
  with assms(3) have "e \<noteq> []" by simp
  with assms(1,2) Inl show ?thesis
    unfolding parse_shape_issues by force
qed auto

lemma parse_shape_all_ok:
  assumes "\<And>k schema. (k, schema) \<in> set shape \<Longrightarrow> \<exists>x. schema (p @ [k]) (obj_get fs k) = Inr x"
  shows "fst (parse_shape shape p fs) = []"
  unfolding parse_shape_issues using assms by fastforce

section \<open>Validated queries\<close>

lemma validateRequest_Inr: "validateRequest schema b = Inr v \<longleftrightarrow> schema [] b = Inr v"
  by (auto simp: validateRequest_def schema_parse_def split: sum.splits parse_thrown.splits)

lemma opt_string_accepts:
  "optional (z_string []) p x = Inr y \<longleftrightarrow> (x = JUndefined \<or> (\<exists>s. x = JStr s)) \<and> y = x"
  by (cases x) (auto simp: optional_def z_string_def)

lemma opt_datetime_accepts:
  "optional (z_string [StrDatetime]) p x = Inr y
     \<longleftrightarrow> (x = JUndefined \<or> (\<exists>s. x = JStr s \<and> is_datetime s)) \<and> y = x"
  by (cases x) (auto simp: optional_def z_string_def)

lemma limit_number_accepts:
  "z_number [CheckInt, CheckMin 1 True, CheckMax 1000 True] p (JNum m) = Inr y
     \<longleftrightarrow> (\<exists>n. m = Finite (of_int n) \<and> 1 \<le> n \<and> n \<le> 1000 \<and> y = JNum m)"
proof (cases m)
  case (Finite r)
  show ?thesis
  proof
    assume a: "z_number [CheckInt, CheckMin 1 True, CheckMax 1000 True] p (JNum m) = Inr y"
    with Finite have r: "of_int \<lfloor>r\<rfloor> = r" "1 \<le> r" "r \<le> 1000" and y: "y = JNum m"
      by (auto simp: z_number_def Let_def split: if_splits)
    from r have "1 \<le> \<lfloor>r\<rfloor>" "\<lfloor>r\<rfloor> \<le> 1000"
      by linarith+
    with r(1) y Finite show "\<exists>n. m = Finite (of_int n) \<and> 1 \<le> n \<and> n \<le> 1000 \<and> y = JNum m"
      by metis
  next
    assume "\<exists>n. m = Finite (of_int n) \<and> 1 \<le> n \<and> n \<le> 1000 \<and> y = JNum m"
    then show "z_number [CheckInt, CheckMin 1 True, CheckMax 1000 True] p (JNum m) = Inr y"
      by (auto simp: z_number_def Let_def)
  qed
qed (auto simp: z_number_def Let_def)

lemma limit_accepts:
  "optional (pipe (transform (z_string []) parseInt_val)
       (z_number [CheckInt, CheckMin 1 True, CheckMax 1000 True])) p x = Inr y
   \<longleftrightarrow> (x = JUndefined \<and> y = JUndefined)
       \<or> (\<exists>s n. x = JStr s \<and> parseInt10 s = Finite (of_int n) \<and> 1 \<le> n \<and> n \<le> 1000
              \<and> y = JNum (Finite (of_int n)))"
proof (cases x)
  case (JStr s)
  then have "optional (pipe (transform (z_string []) parseInt_val)
       (z_number [CheckInt, CheckMin 1 True, CheckMax 1000 True])) p x
     = z_number [CheckInt, CheckMin 1 True, CheckMax 1000 True] p (JNum (parseInt10 s))"
    by (simp add: optional_def pipe_def transform_def z_string_def parseInt_val_def)
  with JStr show ?thesis
    by (auto simp: limit_number_accepts)
qed (auto simp: optional_def pipe_def transform_def z_string_def)

lemma limit_nonempty:
  "optional (pipe (transform (z_string []) parseInt_val) (z_number cs)) p x = Inl e \<Longrightarrow> e \<noteq> []"
  by (auto simp: optional_def pipe_def transform_def
           dest: z_string_nonempty z_number_nonempty split: if_splits sum.splits)

lemma query_schema_Inr:
  assumes "querySensorDataSchema [] b = Inr v"
  shows "\<exists>fs out. b = JObj fs \<and> v = JObj out
     \<and> (obj_get fs ''wall_id'' = JUndefined \<or> (\<exists>s. obj_get fs ''wall_id'' = JStr s))
     \<and> obj_get out ''wall_id'' = obj_get fs ''wall_id''
     \<and> (obj_get fs ''start_time'' = JUndefined \<or> (\<exists>s. obj_get fs ''start_time'' = JStr s \<and> is_datetime s))
     \<and> obj_get out ''start_time'' = obj_get fs ''start_time''
     \<and> (obj_get fs ''end_time'' = JUndefined \<or> (\<exists>s. obj_get fs ''end_time'' = JStr s \<and> is_datetime s))
     \<and> obj_get out ''end_time'' = obj_get fs ''end_time''
     \<and> (obj_get fs ''limit'' = JUndefined \<and> obj_get out ''limit'' = JUndefined
         \<or> (\<exists>s n. obj_get fs ''limit'' = JStr s \<and> parseInt10 s = Finite (of_int n)
                \<and> 1 \<le> n \<and> n \<le> 1000 \<and> obj_get out ''limit'' = JNum (Finite (of_int n))))"
proof -
  define lim where "lim = optional (pipe (transform (z_string []) parseInt_val)
                     (z_number [CheckInt, CheckMin 1 True, CheckMax 1000 True]))"
  define shape where "shape = [(''wall_id'', optional (z_string [])),
      (''start_time'', optional (z_string [StrDatetime])),
      (''end_time'', optional (z_string [StrDatetime])),
      (''limit'', lim)]"
  from assms have "z_object shape [] b = Inr v"
    by (simp add: querySensorDataSchema_def shape_def lim_def)
  from z_object_Inr[OF this] obtain fs where b: "b = JObj fs"
    and ok: "fst (parse_shape shape [] fs) = []" and v: "v = JObj (snd (parse_shape shape [] fs))"
    by blast
  define out where "out = snd (parse_shape shape [] fs)"
  have d: "distinct (map fst shape)" by (simp add: shape_def)
  have field: "\<exists>x. schema [k] (obj_get fs k) = Inr x \<and> obj_get out k = x"
    if m: "(k, schema) \<in> set shape" for k schema
  proof -
    have "e \<noteq> []" if "schema ([] @ [k]) (obj_get fs k) = Inl e" for e
      using m that unfolding shape_def lim_def
      by (auto dest: optional_z_string_nonempty limit_nonempty)
    from parse_shape_ok_field[OF ok m this] obtain x where x: "schema ([] @ [k]) (obj_get fs k) = Inr x"
      by blast
    from parse_shape_get[OF d m x] x show ?thesis
      by (auto simp: out_def)
  qed
  have w: "(obj_get fs ''wall_id'' = JUndefined \<or> (\<exists>s. obj_get fs ''wall_id'' = JStr s))
     \<and> obj_get out ''wall_id'' = obj_get fs ''wall_id''"
    using field[of "''wall_id''" "optional (z_string [])"]
    by (auto simp: shape_def opt_string_accepts)
  have st: "(obj_get fs ''start_time'' = JUndefined \<or> (\<exists>s. obj_get fs ''start_time'' = JStr s \<and> is_datetime s))
     \<and> obj_get out ''start_time'' = obj_get fs ''start_time''"
    using field[of "''start_time''" "optional (z_string [StrDatetime])"]
    by (auto simp: shape_def opt_datetime_accepts)
  have en: "(obj_get fs ''end_time'' = JUndefined \<or> (\<exists>s. obj_get fs ''end_time'' = JStr s \<and> is_datetime s))
     \<and> obj_get out ''end_time'' = obj_get fs ''end_time''"
    using field[of "''end_time''" "optional (z_string [StrDatetime])"]
    by (auto simp: shape_def opt_datetime_accepts)
  have li: "(obj_get fs ''limit'' = JUndefined \<and> obj_get out ''limit'' = JUndefined
         \<or> (\<exists>s n. obj_get fs ''limit'' = JStr s \<and> parseInt10 s = Finite (of_int n)
                \<and> 1 \<le> n \<and> n \<le> 1000 \<and> obj_get out ''limit'' = JNum (Finite (of_int n))))"
    using field[of "''limit''" lim]
    by (auto simp: shape_def lim_def limit_accepts)
  from b v w st en li show ?thesis
    unfolding out_def[symmetric] by blast
qed

lemma query_validated:
  assumes "validateRequest querySensorDataSchema b = Inr v"
  shows "\<exists>fs. b = JObj fs
     \<and> wall_id (destructure v) = str_prop fs ''wall_id''
     \<and> (obj_get fs ''wall_id'' = JUndefined \<or> (\<exists>s. obj_get fs ''wall_id'' = JStr s))
     \<and> start_time (destructure v) = str_prop fs ''start_time''
     \<and> (obj_get fs ''start_time'' = JUndefined \<or> (\<exists>s. obj_get fs ''start_time'' = JStr s \<and> is_datetime s))
     \<and> end_time (destructure v) = str_prop fs ''end_time''
     \<and> (obj_get fs ''end_time'' = JUndefined \<or> (\<exists>s. obj_get fs ''end_time'' = JStr s \<and> is_datetime s))
     \<and> (obj_get fs ''limit'' = JUndefined \<and> limit (destructure v) = None
         \<or> (\<exists>s n. obj_get fs ''limit'' = JStr s \<and> parseInt10 s = Finite (of_int n)
                \<and> 1 \<le> n \<and> n \<le> 1000 \<and> limit (destructure v) = Some n))"
proof -
  from assms have "querySensorDataSchema [] b = Inr v"
    by (simp add: validateRequest_Inr)
  from query_schema_Inr[OF this] obtain fs out where b: "b = JObj fs" and v: "v = JObj out"
    and w: "obj_get fs ''wall_id'' = JUndefined \<or> (\<exists>s. obj_get fs ''wall_id'' = JStr s)"
           "obj_get out ''wall_id'' = obj_get fs ''wall_id''"
    and st: "obj_get fs ''start_time'' = JUndefined \<or> (\<exists>s. obj_get fs ''start_time'' = JStr s \<and> is_datetime s)"
           "obj_get out ''start_time'' = obj_get fs ''start_time''"
    and en: "obj_get fs ''end_time'' = JUndefined \<or> (\<exists>s. obj_get fs ''end_time'' = JStr s \<and> is_datetime s)"
           "obj_get out ''end_time'' = obj_get fs ''end_time''"
    and li: "obj_get fs ''limit'' = JUndefined \<and> obj_get out ''limit'' = JUndefined
         \<or> (\<exists>s n. obj_get fs ''limit'' = JStr s \<and> parseInt10 s = Finite (of_int n)
                \<and> 1 \<le> n \<and> n \<le> 1000 \<and> obj_get out ''limit'' = JNum (Finite (of_int n)))"
    by blast
  have 1: "wall_id (destructure v) = str_prop fs ''wall_id''"
    and 2: "start_time (destructure v) = str_prop fs ''start_time''"
    and 3: "end_time (destructure v) = str_prop fs ''end_time''"
    using w(2) st(2) en(2) by (simp_all add: destructure_def v spread_def str_prop_def)
  have 4: "obj_get fs ''limit'' = JUndefined \<and> limit (destructure v) = None
         \<or> (\<exists>s n. obj_get fs ''limit'' = JStr s \<and> parseInt10 s = Finite (of_int n)
                \<and> 1 \<le> n \<and> n \<le> 1000 \<and> limit (destructure v) = Some n)"
    using li by (auto simp: destructure_def v spread_def int_prop_def)
  from b w(1) st(1) en(1) 1 2 3 4 show ?thesis by blast
qed

lemma query_accepted_if:
  assumes "obj_get fs ''wall_id'' = JUndefined \<or> (\<exists>s. obj_get fs ''wall_id'' = JStr s)"
    and "obj_get fs ''start_time'' = JUndefined \<or> (\<exists>s. obj_get fs ''start_time'' = JStr s \<and> is_datetime s)"
    and "obj_get fs ''end_time'' = JUndefined \<or> (\<exists>s. obj_get fs ''end_time'' = JStr s \<and> is_datetime s)"
    and "obj_get fs ''limit'' = JUndefined
         \<or> (\<exists>s n. obj_get fs ''limit'' = JStr s \<and> parseInt10 s = Finite (of_int n) \<and> 1 \<le> n \<and> n \<le> 1000)"
  shows "\<exists>v. validateRequest querySensorDataSchema (JObj fs) = Inr v"
proof -
  define lim where "lim = optional (pipe (transform (z_string []) parseInt_val)
                     (z_number [CheckInt, CheckMin 1 True, CheckMax 1000 True]))"
  define shape where "shape = [(''wall_id'', optional (z_string [])),
      (''start_time'', optional (z_string [StrDatetime])),
      (''end_time'', optional (z_string [StrDatetime])),
      (''limit'', lim)]"
  have "\<exists>x. schema ([] @ [k]) (obj_get fs k) = Inr x" if "(k, schema) \<in> set shape" for k schema
    using that assms unfolding shape_def lim_def
    by (auto simp: opt_string_accepts opt_datetime_accepts limit_accepts)
  then have "fst (parse_shape shape [] fs) = []"
    by (rule parse_shape_all_ok)
  then have "\<exists>v. z_object shape [] (JObj fs) = Inr v"
    by (cases "parse_shape shape [] fs") (auto simp: z_object_def)
  then show ?thesis
    by (simp add: validateRequest_Inr querySensorDataSchema_def shape_def lim_def)
qed

section \<open>Dates\<close>










section \<open>Queries\<close>

lemma get_try_Inr:
  "get_try rt db p = Inr resp \<longleftrightarrow>
     (\<exists>coll. db = Some coll \<and> fault rt = None
        \<and> resp = respond_data (cursor_limit (effective_limit p)
                    (sort_desc server_ts (filter (matches (build_query p)) coll))))"
  by (auto simp: get_try_def getDatabase_def find_sorted_def split: option.splits sum.splits)

lemma matches_build_query:
  "matches (build_query p) d \<longleftrightarrow>
     (\<forall>w. wall_id p = Some w \<longrightarrow> w \<noteq> [] \<longrightarrow> obj_get d ''wall_id'' = JStr w)
   \<and> (\<forall>s. start_time p = Some s \<longrightarrow> s \<noteq> [] \<longrightarrow> (\<exists>t. server_ts d = Some t \<and> Date_parse s \<le> t))
   \<and> (\<forall>e. end_time p = Some e \<longrightarrow> e \<noteq> [] \<longrightarrow> (\<exists>t. server_ts d = Some t \<and> t \<le> Date_parse e))"
  by (cases "wall_id p"; cases "start_time p"; cases "end_time p"; cases "server_ts d")
     (auto simp: matches_def build_query_def in_range_def truthy_def Let_def)

lemma set_cursor_limit: "set (cursor_limit n xs) \<subseteq> set xs"
  by (auto simp: cursor_limit_def dest: in_set_takeD)

lemma validated_limit:
  assumes "validateRequest querySensorDataSchema b = Inr v"
  shows "1 \<le> effective_limit (destructure v) \<and> effective_limit (destructure v) \<le> 1000"
  using query_validated[OF assms] by (auto simp: effective_limit_def)

lemma get_handler_ok:
  "fault rt = None \<Longrightarrow>
     get_handler rt (Some coll) p =
       respond_data (cursor_limit (effective_limit p)
                       (sort_desc server_ts (filter (matches (build_query p)) coll)))"
  by (simp add: get_handler_def get_try_def getDatabase_def find_sorted_def)

lemma route_get_validated:
  "validateRequest querySensorDataSchema b = Inr v \<Longrightarrow>
     sensorDataRouter_get rt db b = get_handler rt db (destructure v)"
  by (simp add: sensorDataRouter_get_def)

lemma length_cursor_limit_pos:
  "0 < n \<Longrightarrow> length (cursor_limit n xs) = min (nat n) (length xs)"
  by (simp add: cursor_limit_def min.commute)


lemmas example_defs = reading_A1_def reading_A2_def reading_B1_def example_log_def no_params_def
  example_runtime_def

lemmas query_defs = validateRequest_def schema_parse_def querySensorDataSchema_def z_object_def
  z_string_def z_number_def optional_def pipe_def transform_def parseInt_val_def obj_get_def
  has_key_def destructure_def spread_def str_prop_def int_prop_def

lemmas read_defs = get_try_def getDatabase_def find_sorted_def build_query_def truthy_def
  effective_limit_def matches_def in_range_def server_ts_def obj_get_def sort_desc_def
  cursor_limit_def Let_def

lemma parseInt10_12abc: "parseInt10 ''12abc'' = Finite 12"
  by (simp add: parseInt10_def ws_width_def ascii_ws_def wide_ws_def is_digit_def decimal_def
      digit_val_def)

lemma parseInt10_1: "parseInt10 ''1'' = Finite 1"
  by (simp add: parseInt10_def ws_width_def ascii_ws_def wide_ws_def is_digit_def decimal_def
      digit_val_def)


lemma validate_limit_1:
  "validateRequest querySensorDataSchema (JObj [(''limit'', JStr ''1'')])
     = Inr (JObj [(''limit'', JNum (Finite 1))])"
  by (simp add: query_defs parseInt10_1)


lemma get_limit_1:
  "get_try example_runtime (Some example_log) (no_params\<lparr>limit := Some 1\<rparr>)
     = Inr (respond_data [reading_A2])"
  by (simp add: read_defs example_defs)



lemma get_wall_A:
  "get_try example_runtime (Some example_log) (no_params\<lparr>wall_id := Some ''A''\<rparr>)
     = Inr (respond_data [reading_A2, reading_A1])"
  by (simp add: read_defs example_defs)

lemma get_wall_empty:
  "sensorDataRouter_get example_runtime (Some example_log) (JObj [(''wall_id'', JStr [])])
     = respond_data [reading_A2, reading_B1, reading_A1]"
  by (simp add: sensorDataRouter_get_def get_handler_def query_defs read_defs example_defs)

text \<open>
  C1 (amended). With the storage answering, the handler answers with status 200 and the
  matching readings, most recent first, cut by the cursor at the limit it was handed,
  passed on as it is, and at 100 when no limit was handed: for every positive limit
  \<open>n\<close> the answer has \<open>n\<close> rows or all matching readings, whichever is fewer, so
  the handler applies no ceiling of its own. For every query that passed validation the
  route runs the handler with a limit that is absent or lies between 1 and 1000, and
  the answer has at most 1000 rows.
\<close>

theorem read_bounded_by_limit:
  assumes "fault rt = None"
  shows "\<exists>data.
       get_handler rt (Some coll) p =
         \<lparr>status = 200,
          body = JObj [(''success'', JBool True),
                       (''count'', JNum (Finite (of_nat (length data)))),
                       (''data'', JArr (map JObj data))]\<rparr>
     \<and> data = cursor_limit (case limit p of None \<Rightarrow> 100 | Some n \<Rightarrow> n)
                (sort_desc server_ts (filter (matches (build_query p)) coll))
     \<and> (limit p = None \<longrightarrow>
          length data = min 100 (length (filter (matches (build_query p)) coll)))
     \<and> (\<forall>n. limit p = Some n \<longrightarrow> 0 < n \<longrightarrow>
          length data = min (nat n) (length (filter (matches (build_query p)) coll)))
     \<and> (\<forall>b v. validateRequest querySensorDataSchema b = Inr v \<longrightarrow> p = destructure v \<longrightarrow>
          sensorDataRouter_get rt (Some coll) b = get_handler rt (Some coll) p
          \<and> (limit p = None \<or> (\<exists>n. limit p = Some n \<and> 1 \<le> n \<and> n \<le> 1000))
          \<and> length data \<le> 1000)"
proof -
  define m where "m = filter (matches (build_query p)) coll"
  define data where "data = cursor_limit (effective_limit p) (sort_desc server_ts m)"
  have 1: "get_handler rt (Some coll) p =
         \<lparr>status = 200,
          body = JObj [(''success'', JBool True),
                       (''count'', JNum (Finite (of_nat (length data)))),
                       (''data'', JArr (map JObj data))]\<rparr>"
    using get_handler_ok[OF assms, of coll p]
    by (simp add: respond_data_def data_def m_def)
  have 2: "data = cursor_limit (case limit p of None \<Rightarrow> 100 | Some n \<Rightarrow> n) (sort_desc server_ts m)"
    by (simp add: data_def effective_limit_def)
  have len: "length data = min (nat (effective_limit p)) (length m)" if "0 < effective_limit p"
    using that by (simp add: data_def length_cursor_limit_pos length_sort_desc)
  have 3: "length data = min 100 (length m)" if "limit p = None"
    using len that by (simp add: effective_limit_def)
  have 4: "length data = min (nat n) (length m)" if "limit p = Some n" "0 < n" for n
    using len that by (simp add: effective_limit_def)
  have 5: "sensorDataRouter_get rt (Some coll) b = get_handler rt (Some coll) p
          \<and> (limit p = None \<or> (\<exists>n. limit p = Some n \<and> 1 \<le> n \<and> n \<le> 1000))
          \<and> length data \<le> 1000"
    if v: "validateRequest querySensorDataSchema b = Inr v" and p: "p = destructure v" for b v
  proof -
    from validated_limit[OF v] p
    have r: "1 \<le> effective_limit p" "effective_limit p \<le> 1000" by simp_all
    then have "length data \<le> 1000"
      using len by simp
    moreover from query_validated[OF v] p
    have "limit p = None \<or> (\<exists>n. limit p = Some n \<and> 1 \<le> n \<and> n \<le> 1000)"
      by auto
    ultimately show ?thesis
      using route_get_validated[OF v] p by simp
  qed
  show ?thesis
    by (rule exI[of _ data]) (use 1 2 3 4 5 in \<open>unfold m_def, blast\<close>)
qed

text \<open>
  C1 (as stated, refuted). Handed the limit 1001, the handler passes 1001 to the cursor:
  over a collection of 1001 readings it returns all 1001 rows.
\<close>

theorem limit_ceiling_counterexample:
  "effective_limit (no_params\<lparr>limit := Some 1001\<rparr>) = 1001
   \<and> get_try example_runtime (Some (replicate 1001 example_stored)) (no_params\<lparr>limit := Some 1001\<rparr>)
       = Inr (respond_data (replicate 1001 example_stored))
   \<and> length (replicate 1001 example_stored) = 1001"
proof -
  let ?p = "no_params\<lparr>limit := Some 1001\<rparr>"
  have e: "effective_limit ?p = 1001"
    by (simp add: effective_limit_def no_params_def)
  have m: "matches (build_query ?p) d" for d
    by (simp add: matches_build_query no_params_def)
  have s: "sort_desc server_ts (replicate 1001 example_stored) = replicate 1001 example_stored"
    by (rule sort_desc_const[where c = "server_ts example_stored"]) simp
  have "get_try example_runtime (Some (replicate 1001 example_stored)) ?p
       = Inr (respond_data (replicate 1001 example_stored))"
    unfolding get_try_Inr using e m s
    by (simp add: example_runtime_def cursor_limit_def)
  with e show ?thesis by simp
qed

text \<open>
  C4 (amended). The schema hands any string given as \<open>wall_id\<close> to the handler
  unchanged. For a non-empty \<open>wall_id\<close> the built filter is the equality on
  \<open>wall_id\<close>: a document matches only if its \<open>wall_id\<close> is that string, and every
  returned reading has it. For the empty string no filter on \<open>wall_id\<close> is built.
\<close>

theorem wall_filter:
  "(validateRequest querySensorDataSchema (JObj fs) = Inr v \<longrightarrow> obj_get fs ''wall_id'' = JStr w
      \<longrightarrow> wall_id (destructure v) = Some w)
   \<and> (wall_id p = Some w \<longrightarrow> w \<noteq> [] \<longrightarrow>
        q_wall_id (build_query p) = Some w
        \<and> (\<forall>d. matches (build_query p) d \<longrightarrow> obj_get d ''wall_id'' = JStr w)
        \<and> (get_try rt db p = Inr resp \<longrightarrow>
             (\<exists>data. resp = respond_data data \<and> (\<forall>d\<in>set data. obj_get d ''wall_id'' = JStr w))))
   \<and> (wall_id p = Some [] \<longrightarrow> q_wall_id (build_query p) = None)"
proof -
  have 1: "wall_id (destructure v) = Some w"
    if "validateRequest querySensorDataSchema (JObj fs) = Inr v" "obj_get fs ''wall_id'' = JStr w"
    using query_validated[OF that(1)] that(2) by (auto simp: str_prop_def)
  have 2: "q_wall_id (build_query p) = Some w" if "wall_id p = Some w" "w \<noteq> []"
    using that by (simp add: build_query_def truthy_def Let_def)
  have 3: "obj_get d ''wall_id'' = JStr w"
    if "wall_id p = Some w" "w \<noteq> []" "matches (build_query p) d" for d
    using that by (simp add: matches_build_query)
  have 4: "\<exists>data. resp = respond_data data \<and> (\<forall>d\<in>set data. obj_get d ''wall_id'' = JStr w)"
    if w: "wall_id p = Some w" "w \<noteq> []" and g: "get_try rt db p = Inr resp"
  proof -
    from g obtain coll where resp: "resp = respond_data (cursor_limit (effective_limit p)
                    (sort_desc server_ts (filter (matches (build_query p)) coll)))"
      unfolding get_try_Inr by blast
    have "set (cursor_limit (effective_limit p)
                    (sort_desc server_ts (filter (matches (build_query p)) coll)))
          \<subseteq> {d. matches (build_query p) d}"
      using set_cursor_limit[of "effective_limit p" "sort_desc server_ts (filter (matches (build_query p)) coll)"]
      by (auto simp: set_sort_desc)
    with 3[OF w] resp show ?thesis by blast
  qed
  have 5: "q_wall_id (build_query p) = None" if "wall_id p = Some []"
    using that by (simp add: build_query_def truthy_def Let_def)
  from 1 2 3 4 5 show ?thesis by blast
qed

text \<open>
  C4 (as stated, refuted). The query \<open>wall_id=\<close> (the empty string) passes
  validation and is answered with the readings of all walls, among them a reading of
  wall \<open>A\<close>.
\<close>

theorem empty_wall_id_counterexample:
  "sensorDataRouter_get example_runtime (Some example_log) (JObj [(''wall_id'', JStr [])])
     = respond_data [reading_A2, reading_B1, reading_A1]
   \<and> obj_get reading_A2 ''wall_id'' = JStr ''A''
   \<and> obj_get reading_A2 ''wall_id'' \<noteq> JStr []"
  using get_wall_empty by (simp add: reading_A2_def obj_get_def)

text \<open>
  C8 (amended). A query object passes validation exactly when \<open>wall_id\<close> is absent or
  a string, \<open>start_time\<close> and \<open>end_time\<close> are absent or datetime strings, and
  \<open>limit\<close> is absent or a string from which \<open>parseInt\<close> reads an integer between 1
  and 1000 (it reads the leading integer and ignores what follows it). When validation
  succeeds, an absent \<open>limit\<close> stays absent in the normalized query (the default 100 is
  applied by the handler), and a present one becomes the integer read.
\<close>

theorem limit_validation:
  "((\<exists>v. validateRequest querySensorDataSchema (JObj fs) = Inr v) \<longleftrightarrow>
        (obj_get fs ''wall_id'' = JUndefined \<or> (\<exists>s. obj_get fs ''wall_id'' = JStr s))
      \<and> (obj_get fs ''start_time'' = JUndefined \<or> (\<exists>s. obj_get fs ''start_time'' = JStr s \<and> is_datetime s))
      \<and> (obj_get fs ''end_time'' = JUndefined \<or> (\<exists>s. obj_get fs ''end_time'' = JStr s \<and> is_datetime s))
      \<and> (obj_get fs ''limit'' = JUndefined
          \<or> (\<exists>s n. obj_get fs ''limit'' = JStr s \<and> parseInt10 s = Finite (of_int n)
                 \<and> 1 \<le> n \<and> n \<le> 1000)))
   \<and> (validateRequest querySensorDataSchema (JObj fs) = Inr v \<longrightarrow>
        (obj_get fs ''limit'' = JUndefined \<longrightarrow>
           limit (destructure v) = None \<and> effective_limit (destructure v) = 100)
      \<and> (\<forall>s. obj_get fs ''limit'' = JStr s \<longrightarrow>
           (\<exists>n. parseInt10 s = Finite (of_int n) \<and> limit (destructure v) = Some n)))"
proof -
  have 1: "(obj_get fs ''wall_id'' = JUndefined \<or> (\<exists>s. obj_get fs ''wall_id'' = JStr s))
      \<and> (obj_get fs ''start_time'' = JUndefined \<or> (\<exists>s. obj_get fs ''start_time'' = JStr s \<and> is_datetime s))
      \<and> (obj_get fs ''end_time'' = JUndefined \<or> (\<exists>s. obj_get fs ''end_time'' = JStr s \<and> is_datetime s))
      \<and> (obj_get fs ''limit'' = JUndefined
          \<or> (\<exists>s n. obj_get fs ''limit'' = JStr s \<and> parseInt10 s = Finite (of_int n)
                 \<and> 1 \<le> n \<and> n \<le> 1000))
      \<and> (obj_get fs ''limit'' = JUndefined \<longrightarrow>
           limit (destructure v) = None \<and> effective_limit (destructure v) = 100)
      \<and> (\<forall>s. obj_get fs ''limit'' = JStr s \<longrightarrow>
           (\<exists>n. parseInt10 s = Finite (of_int n) \<and> limit (destructure v) = Some n))"
    if "validateRequest querySensorDataSchema (JObj fs) = Inr v" for v
    using query_validated[OF that] by (auto simp: effective_limit_def)
  show ?thesis
    using 1 query_accepted_if[of fs] by blast
qed

text \<open>
  C8 (as stated, refuted). The string \<open>12abc\<close> is not an integer, and validation
  accepts it with the limit 12.
\<close>

theorem limit_trailing_text_counterexample:
  "validateRequest querySensorDataSchema (JObj [(''limit'', JStr ''12abc'')])
     = Inr (JObj [(''limit'', JNum (Finite 12))])"
  by (simp add: query_defs parseInt10_12abc)

lemma validate_wall_A:
  "validateRequest querySensorDataSchema (JObj [(''wall_id'', JStr ''A'')])
     = Inr (JObj [(''wall_id'', JStr ''A'')])"
  by (simp add: query_defs)

lemma validate_nothing:
  "validateRequest querySensorDataSchema (JObj []) = Inr (JObj [])"
  by (simp add: query_defs)


lemma fault_example: "fault example_runtime = None"
  by (simp add: example_runtime_def)

lemma handler_limit_1:
  "get_handler example_runtime (Some example_log) (no_params\<lparr>limit := Some 1\<rparr>)
     = \<lparr>status = 200,
        body = JObj [(''success'', JBool True), (''count'', JNum (Finite 1)),
                     (''data'', JArr [JObj reading_A2])]\<rparr>"
  by (simp add: get_handler_def get_limit_1 respond_data_def)







lemma destructure_limit_1:
  "destructure (JObj [(''limit'', JNum (Finite 1))]) = no_params\<lparr>limit := Some 1\<rparr>"
  by (simp add: query_defs no_params_def)

lemma handler_no_params:
  "get_handler example_runtime (Some example_log) no_params
     = \<lparr>status = 200,
        body = JObj [(''success'', JBool True), (''count'', JNum (Finite 3)),
                     (''data'', JArr [JObj reading_A2, JObj reading_B1, JObj reading_A1])]\<rparr>"
  by (simp add: get_handler_def read_defs example_defs respond_data_def)

lemma rows_eq:
  "JArr (map JObj data) = JArr (map JObj data') \<Longrightarrow> data = data'"
  by (simp add: inj_map_eq_map inj_on_def)

theorem read_bounded_by_limit_witness:
  "fault example_runtime = None
   \<and> limit (no_params\<lparr>limit := Some 1\<rparr>) = Some 1
   \<and> validateRequest querySensorDataSchema (JObj [(''limit'', JStr ''1'')])
       = Inr (JObj [(''limit'', JNum (Finite 1))])
   \<and> no_params\<lparr>limit := Some 1\<rparr> = destructure (JObj [(''limit'', JNum (Finite 1))])
   \<and> get_handler example_runtime (Some example_log) (no_params\<lparr>limit := Some 1\<rparr>)
       = \<lparr>status = 200,
          body = JObj [(''success'', JBool True), (''count'', JNum (Finite 1)),
                       (''data'', JArr [JObj reading_A2])]\<rparr>
   \<and> [reading_A2]
       = cursor_limit 1 (sort_desc server_ts
           (filter (matches (build_query (no_params\<lparr>limit := Some 1\<rparr>))) example_log))
   \<and> length [reading_A2]
       = min (nat 1) (length (filter (matches (build_query (no_params\<lparr>limit := Some 1\<rparr>))) example_log))
   \<and> sensorDataRouter_get example_runtime (Some example_log) (JObj [(''limit'', JStr ''1'')])
       = get_handler example_runtime (Some example_log) (no_params\<lparr>limit := Some 1\<rparr>)
   \<and> length [reading_A2] \<le> 1000
   \<and> limit no_params = None
   \<and> get_handler example_runtime (Some example_log) no_params
       = \<lparr>status = 200,
          body = JObj [(''success'', JBool True), (''count'', JNum (Finite 3)),
                       (''data'', JArr [JObj reading_A2, JObj reading_B1, JObj reading_A1])]\<rparr>
   \<and> length [reading_A2, reading_B1, reading_A1]
       = min 100 (length (filter (matches (build_query no_params)) example_log))"
proof -
  let ?p = "no_params\<lparr>limit := Some 1\<rparr>"
  have l: "limit ?p = Some 1" and n: "limit no_params = None"
    by (simp_all add: no_params_def)
  from read_bounded_by_limit[OF fault_example, of example_log ?p]
  obtain data where
    r: "get_handler example_runtime (Some example_log) ?p =
         \<lparr>status = 200,
          body = JObj [(''success'', JBool True),
                       (''count'', JNum (Finite (of_nat (length data)))),
                       (''data'', JArr (map JObj data))]\<rparr>"
    and c: "data = cursor_limit (case limit ?p of None \<Rightarrow> 100 | Some n \<Rightarrow> n)
                (sort_desc server_ts (filter (matches (build_query ?p)) example_log))"
    and k: "\<forall>n. limit ?p = Some n \<longrightarrow> 0 < n \<longrightarrow>
          length data = min (nat n) (length (filter (matches (build_query ?p)) example_log))"
    and v: "\<forall>b v. validateRequest querySensorDataSchema b = Inr v \<longrightarrow> ?p = destructure v \<longrightarrow>
          sensorDataRouter_get example_runtime (Some example_log) b
            = get_handler example_runtime (Some example_log) ?p
          \<and> (limit ?p = None \<or> (\<exists>n. limit ?p = Some n \<and> 1 \<le> n \<and> n \<le> 1000))
          \<and> length data \<le> 1000"
    by blast
  from r handler_limit_1 have "JArr (map JObj data) = JArr (map JObj [reading_A2])"
    by simp
  then have d: "data = [reading_A2]"
    by (rule rows_eq)
  have 1: "[reading_A2] = cursor_limit 1 (sort_desc server_ts
             (filter (matches (build_query ?p)) example_log))"
    using c l unfolding d by simp
  have 2: "length [reading_A2]
             = min (nat 1) (length (filter (matches (build_query ?p)) example_log))"
    using k l unfolding d by simp
  have 3: "sensorDataRouter_get example_runtime (Some example_log) (JObj [(''limit'', JStr ''1'')])
             = get_handler example_runtime (Some example_log) ?p"
    and 4: "length [reading_A2] \<le> 1000"
    using v validate_limit_1 destructure_limit_1 unfolding d by simp_all
  from read_bounded_by_limit[OF fault_example, of example_log no_params]
  obtain data' where
    r': "get_handler example_runtime (Some example_log) no_params =
         \<lparr>status = 200,
          body = JObj [(''success'', JBool True),
                       (''count'', JNum (Finite (of_nat (length data')))),
                       (''data'', JArr (map JObj data'))]\<rparr>"
    and k': "limit no_params = None \<longrightarrow>
          length data' = min 100 (length (filter (matches (build_query no_params)) example_log))"
    by (elim exE conjE) (rule that)
  from r' handler_no_params
  have "JArr (map JObj data') = JArr (map JObj [reading_A2, reading_B1, reading_A1])"
    by simp
  then have d': "data' = [reading_A2, reading_B1, reading_A1]"
    by (rule rows_eq)
  have 5: "length [reading_A2, reading_B1, reading_A1]
             = min 100 (length (filter (matches (build_query no_params)) example_log))"
    using k' n unfolding d' by simp
  show ?thesis
    using fault_example l validate_limit_1 destructure_limit_1[symmetric] handler_limit_1 1 2 3 4 n
      handler_no_params 5
    by (intro conjI)
qed

theorem wall_filter_witness:
  "validateRequest querySensorDataSchema (JObj [(''wall_id'', JStr ''A'')])
     = Inr (JObj [(''wall_id'', JStr ''A'')])
   \<and> obj_get [(''wall_id'', JStr ''A'')] ''wall_id'' = JStr ''A''
   \<and> wall_id (destructure (JObj [(''wall_id'', JStr ''A'')])) = Some ''A''
   \<and> wall_id (no_params\<lparr>wall_id := Some ''A''\<rparr>) = Some ''A'' \<and> ''A'' \<noteq> []
   \<and> q_wall_id (build_query (no_params\<lparr>wall_id := Some ''A''\<rparr>)) = Some ''A''
   \<and> get_try example_runtime (Some example_log) (no_params\<lparr>wall_id := Some ''A''\<rparr>)
       = Inr (respond_data [reading_A2, reading_A1])
   \<and> (\<exists>data. respond_data [reading_A2, reading_A1] = respond_data data
         \<and> (\<forall>d\<in>set data. obj_get d ''wall_id'' = JStr ''A''))
   \<and> wall_id (no_params\<lparr>wall_id := Some []\<rparr>) = Some []
   \<and> q_wall_id (build_query (no_params\<lparr>wall_id := Some []\<rparr>)) = None"
proof -
  have a: "obj_get [(''wall_id'', JStr ''A'')] ''wall_id'' = JStr ''A''"
    by (simp add: obj_get_def)
  have b: "wall_id (no_params\<lparr>wall_id := Some ''A''\<rparr>) = Some ''A''" and c: "''A'' \<noteq> []"
    and d: "wall_id (no_params\<lparr>wall_id := Some []\<rparr>) = Some []"
    by simp_all
  note t1 = wall_filter[of "[(''wall_id'', JStr ''A'')]" "JObj [(''wall_id'', JStr ''A'')]" "''A''"
      "no_params\<lparr>wall_id := Some ''A''\<rparr>" example_runtime "Some example_log"
      "respond_data [reading_A2, reading_A1]"]
  note t2 = wall_filter[of _ _ _ "no_params\<lparr>wall_id := Some []\<rparr>" example_runtime]
  from t2 d have e: "q_wall_id (build_query (no_params\<lparr>wall_id := Some []\<rparr>)) = None"
    by blast
  from t1 validate_wall_A a b c get_wall_A d e show ?thesis by blast
qed

theorem limit_validation_witness:
  "validateRequest querySensorDataSchema (JObj [(''limit'', JStr ''1'')])
     = Inr (JObj [(''limit'', JNum (Finite 1))])
   \<and> obj_get [(''limit'', JStr ''1'')] ''limit'' = JStr ''1''
   \<and> (\<exists>n. parseInt10 ''1'' = Finite (of_int n)
         \<and> limit (destructure (JObj [(''limit'', JNum (Finite 1))])) = Some n)
   \<and> validateRequest querySensorDataSchema (JObj []) = Inr (JObj [])
   \<and> obj_get [] ''limit'' = JUndefined
   \<and> limit (destructure (JObj [])) = None \<and> effective_limit (destructure (JObj [])) = 100"
proof -
  have a: "obj_get [(''limit'', JStr ''1'')] ''limit'' = JStr ''1''"
    and b: "obj_get [] ''limit'' = JUndefined"
    by (simp_all add: obj_get_def)
  note t1 = limit_validation[of "[(''limit'', JStr ''1'')]" "JObj [(''limit'', JNum (Finite 1))]"]
  note t2 = limit_validation[of "[]" "JObj []"]
  from t1 validate_limit_1 a
  have c: "\<exists>n. parseInt10 ''1'' = Finite (of_int n)
         \<and> limit (destructure (JObj [(''limit'', JNum (Finite 1))])) = Some n"
    by blast
  from t2 validate_nothing b
  have d: "limit (destructure (JObj [])) = None \<and> effective_limit (destructure (JObj [])) = 100"
    by blast
  from validate_limit_1 validate_nothing a b c d show ?thesis by blast
qed




section \<open>The walls summary\<close>

lemma g_id_group_add:
  "g_id ` set (group_add d gs) = insert (field_or_null d ''wall_id'') (g_id ` set gs)"
  by (induction gs) auto

lemma distinct_group_add:
  "distinct (map g_id gs) \<Longrightarrow> distinct (map g_id (group_add d gs))"
proof (induction gs)
  case Nil
  then show ?case by simp
next
  case (Cons g gs)
  then show ?case
    using g_id_group_add[of d gs] by (auto simp: image_iff)
qed

lemma map_of_group_add:
  "map_of (map (\<lambda>g. (g_id g, g)) (group_add d gs)) k =
     (if k = field_or_null d ''wall_id''
      then Some (case map_of (map (\<lambda>g. (g_id g, g)) gs) (field_or_null d ''wall_id'') of
             None \<Rightarrow> \<lparr>g_id = field_or_null d ''wall_id'', g_latest_reading = server_ts d,
                       g_device_count = field_or_null d ''device_count''\<rparr>
           | Some g \<Rightarrow> g\<lparr>g_latest_reading := max (g_latest_reading g) (server_ts d),
                         g_device_count := field_or_null d ''device_count''\<rparr>)
      else map_of (map (\<lambda>g. (g_id g, g)) gs) k)"
  by (induction gs) auto

lemma Max_snoc:
  fixes f :: "'a \<Rightarrow> 'b::linorder"
  assumes "xs \<noteq> []"
  shows "Max (f ` set (xs @ [x])) = max (Max (f ` set xs)) (f x)"
proof -
  from assms have "finite (f ` set xs)" and "f ` set xs \<noteq> {}" by simp_all
  then have "Max (insert (f x) (f ` set xs)) = max (f x) (Max (f ` set xs))"
    by (rule Max_insert)
  then show ?thesis
    by (simp add: max.commute)
qed

lemma group_stage_snoc: "group_stage (coll @ [d]) = group_add d (group_stage coll)"
  by (simp add: group_stage_def)

lemma group_stage_invariant:
  "distinct (map g_id (group_stage coll))
   \<and> g_id ` set (group_stage coll) = (\<lambda>d. field_or_null d ''wall_id'') ` set coll
   \<and> (\<forall>k \<in> (\<lambda>d. field_or_null d ''wall_id'') ` set coll.
        map_of (map (\<lambda>g. (g_id g, g)) (group_stage coll)) k =
          Some \<lparr>g_id = k,
                g_latest_reading =
                  Max (server_ts ` set (filter (\<lambda>d. field_or_null d ''wall_id'' = k) coll)),
                g_device_count =
                  field_or_null (last (filter (\<lambda>d. field_or_null d ''wall_id'' = k) coll))
                    ''device_count''\<rparr>)"
proof (induction coll rule: rev_induct)
  case Nil
  then show ?case by (simp add: group_stage_def)
next
  case (snoc d coll)
  let ?key = "\<lambda>d. field_or_null d ''wall_id''"
  let ?docs = "\<lambda>c k. filter (\<lambda>d. field_or_null d ''wall_id'' = k) c"
  let ?row = "\<lambda>c k. \<lparr>g_id = k, g_latest_reading = Max (server_ts ` set (?docs c k)),
                      g_device_count = field_or_null (last (?docs c k)) ''device_count''\<rparr>"
  define tab where "tab = map_of (map (\<lambda>g. (g_id g, g)) (group_stage coll))"
  from snoc have dist: "distinct (map g_id (group_stage coll))"
    and keys: "g_id ` set (group_stage coll) = ?key ` set coll"
    and tab: "\<And>k. k \<in> ?key ` set coll \<Longrightarrow> tab k = Some (?row coll k)"
    unfolding tab_def by auto
  have none: "tab k = None" if "k \<notin> ?key ` set coll" for k
    using that keys unfolding tab_def
    by (simp add: map_of_eq_None_iff image_image)
  have step: "map_of (map (\<lambda>g. (g_id g, g)) (group_stage (coll @ [d]))) k =
      (if k = ?key d
       then Some (case tab (?key d) of
             None \<Rightarrow> \<lparr>g_id = ?key d, g_latest_reading = server_ts d,
                       g_device_count = field_or_null d ''device_count''\<rparr>
           | Some g \<Rightarrow> g\<lparr>g_latest_reading := max (g_latest_reading g) (server_ts d),
                         g_device_count := field_or_null d ''device_count''\<rparr>)
       else tab k)" for k
    unfolding group_stage_snoc map_of_group_add tab_def ..
  have 1: "distinct (map g_id (group_stage (coll @ [d])))"
    unfolding group_stage_snoc using dist by (rule distinct_group_add)
  have 2: "g_id ` set (group_stage (coll @ [d])) = ?key ` set (coll @ [d])"
    unfolding group_stage_snoc g_id_group_add using keys by auto
  have 3: "map_of (map (\<lambda>g. (g_id g, g)) (group_stage (coll @ [d]))) k = Some (?row (coll @ [d]) k)"
    if k: "k \<in> ?key ` set (coll @ [d])" for k
  proof (cases "k = ?key d")
    case False
    with k have "k \<in> ?key ` set coll" by auto
    from tab[OF this] False show ?thesis
      unfolding step by simp
  next
    case True
    show ?thesis
    proof (cases "k \<in> ?key ` set coll")
      case False
      from False have "?docs coll k = []"
        unfolding filter_empty_conv by blast
      with True have "?docs (coll @ [d]) k = [d]"
        by simp
      with none[OF False] True show ?thesis
        unfolding step by simp
    next
      case in_coll: True
      then have ne: "?docs coll k \<noteq> []"
        by (auto simp: filter_empty_conv)
      from True have app: "?docs (coll @ [d]) k = ?docs coll k @ [d]"
        by simp
      from ne have "Max (server_ts ` set (?docs coll k @ [d]))
                    = max (Max (server_ts ` set (?docs coll k))) (server_ts d)"
        by (rule Max_snoc)
      with tab[OF in_coll] True show ?thesis
        unfolding step app by simp
    qed
  qed
  from 1 2 3 show ?case by blast
qed

lemma group_stage_member:
  assumes "g \<in> set (group_stage coll)"
  shows "g_latest_reading g =
           Max (server_ts ` set (filter (\<lambda>d. field_or_null d ''wall_id'' = g_id g) coll))
       \<and> g_device_count g =
           field_or_null (last (filter (\<lambda>d. field_or_null d ''wall_id'' = g_id g) coll))
             ''device_count''"
proof -
  from group_stage_invariant[of coll]
  have dist: "distinct (map g_id (group_stage coll))"
    and keys: "g_id ` set (group_stage coll) = (\<lambda>d. field_or_null d ''wall_id'') ` set coll"
    and tab: "\<And>k. k \<in> (\<lambda>d. field_or_null d ''wall_id'') ` set coll \<Longrightarrow>
        map_of (map (\<lambda>g. (g_id g, g)) (group_stage coll)) k =
          Some \<lparr>g_id = k,
                g_latest_reading =
                  Max (server_ts ` set (filter (\<lambda>d. field_or_null d ''wall_id'' = k) coll)),
                g_device_count =
                  field_or_null (last (filter (\<lambda>d. field_or_null d ''wall_id'' = k) coll))
                    ''device_count''\<rparr>"
    by blast+
  from dist have "distinct (map fst (map (\<lambda>g. (g_id g, g)) (group_stage coll)))"
    by (simp add: comp_def)
  moreover from assms have "(g_id g, g) \<in> set (map (\<lambda>g. (g_id g, g)) (group_stage coll))"
    by auto
  ultimately have "map_of (map (\<lambda>g. (g_id g, g)) (group_stage coll)) (g_id g) = Some g"
    by (rule map_of_is_SomeI)
  moreover from assms keys have "g_id g \<in> (\<lambda>d. field_or_null d ''wall_id'') ` set coll"
    by auto
  ultimately show ?thesis
    using tab[of "g_id g"] by (cases g) auto
qed

lemma distinct_map_insert_desc:
  "distinct (map h (insert_desc f x ys)) \<longleftrightarrow> h x \<notin> h ` set ys \<and> distinct (map h ys)"
  by (induction ys) (auto simp: set_insert_desc)

lemma sort_desc_Nil: "sort_desc f [] = []"
  by (simp add: sort_desc_def)

lemma distinct_map_sort_desc: "distinct (map h (sort_desc f xs)) = distinct (map h xs)"
  by (induction xs)
     (auto simp: sort_desc_Nil sort_desc_Cons distinct_map_insert_desc set_sort_desc)

lemma route_walls_ok:
  "fault rt = None \<Longrightarrow>
     sensorDataRouter_get_walls rt (Some coll) = respond_walls (walls_pipeline coll)"
  by (simp add: sensorDataRouter_get_walls_def walls_try_def getDatabase_def aggregate_def)

text \<open>
  C3. With the storage answering, the walls route answers with status 200, the count of
  the rows and the rows; there is exactly one row for every distinct \<open>wall_id\<close> of
  the collection; in the row of a wall, \<open>latest_reading\<close> is the maximum
  \<open>server_timestamp\<close> over the readings of that wall, and \<open>device_count\<close> is the
  \<open>device_count\<close> of the reading of that wall inserted last, whichever reading holds
  the maximum; the rows are in descending order of \<open>latest_reading\<close>.
\<close>

theorem walls_summary:
  assumes "fault rt = None"
  shows "\<exists>walls :: wall_summary list.
       sensorDataRouter_get_walls rt (Some coll) =
         \<lparr>status = 200,
          body = JObj [(''success'', JBool True),
                       (''count'', JNum (Finite (of_nat (length walls)))),
                       (''walls'', JArr (map (\<lambda>w. JObj
                           [(''latest_reading'',
                               (case latest_reading w of None \<Rightarrow> JNull | Some t \<Rightarrow> JDate t)),
                            (''device_count'', device_count w),
                            (''wall_id'', ws_wall_id w)]) walls))]\<rparr>
     \<and> distinct (map ws_wall_id walls)
     \<and> set (map ws_wall_id walls) = (\<lambda>d. field_or_null d ''wall_id'') ` set coll
     \<and> length walls = card ((\<lambda>d. field_or_null d ''wall_id'') ` set coll)
     \<and> (\<forall>w\<in>set walls.
          latest_reading w =
            Max (server_ts ` set (filter (\<lambda>d. field_or_null d ''wall_id'' = ws_wall_id w) coll))
        \<and> device_count w =
            field_or_null (last (filter (\<lambda>d. field_or_null d ''wall_id'' = ws_wall_id w) coll))
              ''device_count'')
     \<and> sorted_wrt (\<lambda>a b. latest_reading b \<le> latest_reading a) walls"
proof -
  define walls where "walls = walls_pipeline coll"
  have 0: "sensorDataRouter_get_walls rt (Some coll) =
         \<lparr>status = 200,
          body = JObj [(''success'', JBool True),
                       (''count'', JNum (Finite (of_nat (length walls)))),
                       (''walls'', JArr (map (\<lambda>w. JObj
                           [(''latest_reading'',
                               (case latest_reading w of None \<Rightarrow> JNull | Some t \<Rightarrow> JDate t)),
                            (''device_count'', device_count w),
                            (''wall_id'', ws_wall_id w)]) walls))]\<rparr>"
    using route_walls_ok[OF assms, of coll]
    by (simp add: respond_walls_def json_wall_def walls_def)
  have set_walls: "set walls = project_stage ` set (group_stage coll)"
    by (simp add: walls_def walls_pipeline_def set_sort_desc)
  have ids: "map ws_wall_id (map project_stage gs) = map g_id gs" for gs
    by (simp add: project_stage_def comp_def)
  from group_stage_invariant[of coll]
  have dist: "distinct (map g_id (group_stage coll))"
    and keys: "g_id ` set (group_stage coll) = (\<lambda>d. field_or_null d ''wall_id'') ` set coll"
    by blast+
  have 1: "distinct (map ws_wall_id walls)"
    unfolding walls_def walls_pipeline_def distinct_map_sort_desc ids by (rule dist)
  have 2: "set (map ws_wall_id walls) = (\<lambda>d. field_or_null d ''wall_id'') ` set coll"
    using keys by (simp add: set_walls image_image project_stage_def)
  from 1 have "card (set (map ws_wall_id walls)) = length (map ws_wall_id walls)"
    by (rule distinct_card)
  with 2 have cnt: "length walls = card ((\<lambda>d. field_or_null d ''wall_id'') ` set coll)"
    by simp
  have 3: "latest_reading w =
            Max (server_ts ` set (filter (\<lambda>d. field_or_null d ''wall_id'' = ws_wall_id w) coll))
        \<and> device_count w =
            field_or_null (last (filter (\<lambda>d. field_or_null d ''wall_id'' = ws_wall_id w) coll))
              ''device_count''" if "w \<in> set walls" for w
  proof -
    from that set_walls obtain g where g: "g \<in> set (group_stage coll)" and w: "w = project_stage g"
      by auto
    from group_stage_member[OF g] w show ?thesis
      by (simp add: project_stage_def)
  qed
  have 4: "sorted_wrt (\<lambda>a b. latest_reading b \<le> latest_reading a) walls"
    unfolding walls_def walls_pipeline_def by (rule sorted_sort_desc)
  show ?thesis
    by (rule exI[of _ walls]) (use 0 1 2 cnt 3 4 in blast)
qed

lemma walls_example:
  "walls_try example_runtime (Some example_log) = Inr (respond_walls example_walls)"
  by (simp add: walls_try_def getDatabase_def aggregate_def walls_pipeline_def group_stage_def
      project_stage_def sort_desc_def field_or_null_def server_ts_def obj_get_def
      example_runtime_def example_log_def reading_A1_def reading_A2_def reading_B1_def
      example_walls_def)

lemma route_walls_example:
  "sensorDataRouter_get_walls example_runtime (Some example_log)
     = \<lparr>status = 200,
        body = JObj [(''success'', JBool True), (''count'', JNum (Finite 2)),
                     (''walls'', JArr
                        [JObj [(''latest_reading'', JDate 1704153600000),
                               (''device_count'', JNum (Finite 5)),
                               (''wall_id'', JStr ''A'')],
                         JObj [(''latest_reading'', JDate 1704100000000),
                               (''device_count'', JNum (Finite 7)),
                               (''wall_id'', JStr ''B'')]])]\<rparr>"
  by (simp add: sensorDataRouter_get_walls_def walls_example respond_walls_def json_wall_def
      example_walls_def)

lemma wall_rows_eq:
  fixes walls walls' :: "wall_summary list"
  assumes "map (\<lambda>w. JObj
             [(''latest_reading'', (case latest_reading w of None \<Rightarrow> JNull | Some t \<Rightarrow> JDate t)),
              (''device_count'', device_count w),
              (''wall_id'', ws_wall_id w)]) walls
         = map (\<lambda>w. JObj
             [(''latest_reading'', (case latest_reading w of None \<Rightarrow> JNull | Some t \<Rightarrow> JDate t)),
              (''device_count'', device_count w),
              (''wall_id'', ws_wall_id w)]) walls'"
  shows "walls = walls'"
proof -
  have "inj (\<lambda>w :: wall_summary. JObj
             [(''latest_reading'', (case latest_reading w of None \<Rightarrow> JNull | Some t \<Rightarrow> JDate t)),
              (''device_count'', device_count w),
              (''wall_id'', ws_wall_id w)])"
    by (rule injI) (auto split: option.splits)
  then show ?thesis
    using assms by (simp add: inj_map_eq_map)
qed

theorem walls_summary_witness:
  "fault example_runtime = None
   \<and> sensorDataRouter_get_walls example_runtime (Some example_log)
       = \<lparr>status = 200,
          body = JObj [(''success'', JBool True), (''count'', JNum (Finite 2)),
                       (''walls'', JArr
                          [JObj [(''latest_reading'', JDate 1704153600000),
                                 (''device_count'', JNum (Finite 5)),
                                 (''wall_id'', JStr ''A'')],
                           JObj [(''latest_reading'', JDate 1704100000000),
                                 (''device_count'', JNum (Finite 7)),
                                 (''wall_id'', JStr ''B'')]])]\<rparr>
   \<and> distinct (map ws_wall_id example_walls)
   \<and> set (map ws_wall_id example_walls) = (\<lambda>d. field_or_null d ''wall_id'') ` set example_log
   \<and> length example_walls = card ((\<lambda>d. field_or_null d ''wall_id'') ` set example_log)
   \<and> \<lparr>ws_wall_id = JStr ''A'', latest_reading = Some 1704153600000,
        device_count = JNum (Finite 5)\<rparr> \<in> set example_walls
   \<and> Some 1704153600000
       = Max (server_ts ` set (filter (\<lambda>d. field_or_null d ''wall_id'' = JStr ''A'') example_log))
   \<and> JNum (Finite 5)
       = field_or_null (last (filter (\<lambda>d. field_or_null d ''wall_id'' = JStr ''A'') example_log))
           ''device_count''
   \<and> sorted_wrt (\<lambda>a b. latest_reading b \<le> latest_reading a) example_walls"
proof -
  let ?A = "\<lparr>ws_wall_id = JStr ''A'', latest_reading = Some 1704153600000,
             device_count = JNum (Finite 5)\<rparr>"
  from walls_summary[OF fault_example, of example_log]
  obtain walls :: "wall_summary list" where
    r: "sensorDataRouter_get_walls example_runtime (Some example_log) =
         \<lparr>status = 200,
          body = JObj [(''success'', JBool True),
                       (''count'', JNum (Finite (of_nat (length walls)))),
                       (''walls'', JArr (map (\<lambda>w. JObj
                           [(''latest_reading'',
                               (case latest_reading w of None \<Rightarrow> JNull | Some t \<Rightarrow> JDate t)),
                            (''device_count'', device_count w),
                            (''wall_id'', ws_wall_id w)]) walls))]\<rparr>"
    and 1: "distinct (map ws_wall_id walls)"
    and 2: "set (map ws_wall_id walls) = (\<lambda>d. field_or_null d ''wall_id'') ` set example_log"
    and 3: "length walls = card ((\<lambda>d. field_or_null d ''wall_id'') ` set example_log)"
    and 4: "\<forall>w\<in>set walls.
          latest_reading w =
            Max (server_ts ` set (filter (\<lambda>d. field_or_null d ''wall_id'' = ws_wall_id w) example_log))
        \<and> device_count w =
            field_or_null (last (filter (\<lambda>d. field_or_null d ''wall_id'' = ws_wall_id w) example_log))
              ''device_count''"
    and 5: "sorted_wrt (\<lambda>a b. latest_reading b \<le> latest_reading a) walls"
    by blast
  have "sensorDataRouter_get_walls example_runtime (Some example_log) =
         \<lparr>status = 200,
          body = JObj [(''success'', JBool True),
                       (''count'', JNum (Finite (of_nat (length example_walls)))),
                       (''walls'', JArr (map (\<lambda>w. JObj
                           [(''latest_reading'',
                               (case latest_reading w of None \<Rightarrow> JNull | Some t \<Rightarrow> JDate t)),
                            (''device_count'', device_count w),
                            (''wall_id'', ws_wall_id w)]) example_walls))]\<rparr>"
    by (simp add: route_walls_example example_walls_def)
  with r have w: "walls = example_walls"
    by (intro wall_rows_eq) simp
  have a: "?A \<in> set example_walls"
    by (simp add: example_walls_def)
  from 4 a have 6: "Some 1704153600000
       = Max (server_ts ` set (filter (\<lambda>d. field_or_null d ''wall_id'' = JStr ''A'') example_log))"
    and 7: "JNum (Finite 5)
       = field_or_null (last (filter (\<lambda>d. field_or_null d ''wall_id'' = JStr ''A'') example_log))
           ''device_count''"
    unfolding w by fastforce+
  show ?thesis
    using fault_example route_walls_example 1 2 3 a 6 7 5 unfolding w
    by (intro conjI)
qed

section \<open>Failure responses\<close>

text \<open>
  C9 (amended). Whatever the storage throws, and also before the database is
  initialized, each of the three sensor-data handlers answers with status 500 and the
  object \<open>{success: false, error: m}\<close>, where \<open>m\<close> is a fixed message of that
  handler; neither the message nor the stack of the error appears. A validation failure
  is answered with status 400 and the list of issues. The health check answers a failure
  with status 503 and an object whose \<open>error\<close> field is the message of the error that
  was thrown, as it is (the fixed text "Unknown error" when the thrown value is no
  \<open>Error\<close>); the stack does not appear.
\<close>

theorem failure_responses:
  "post_handler (rt\<lparr>fault := Some e\<rparr>) db sensorData
     = (failure 500 ''Failed to save sensor data'', db)
   \<and> get_handler (rt\<lparr>fault := Some e\<rparr>) db p = failure 500 ''Failed to query sensor data''
   \<and> sensorDataRouter_get_walls (rt\<lparr>fault := Some e\<rparr>) db = failure 500 ''Failed to get walls data''
   \<and> post_handler rt None sensorData = (failure 500 ''Failed to save sensor data'', None)
   \<and> get_handler rt None p = failure 500 ''Failed to query sensor data''
   \<and> sensorDataRouter_get_walls rt None = failure 500 ''Failed to get walls data''
   \<and> failure 500 msg = \<lparr>status = 500, body = JObj [(''success'', JBool False), (''error'', JStr msg)]\<rparr>
   \<and> (validateRequest schema b = Inl resp \<longrightarrow>
        (\<exists>issues. resp = \<lparr>status = 400,
             body = JObj [(''success'', JBool False), (''error'', JStr ''Validation failed''),
                          (''details'', JArr (map json_issue issues))]\<rparr>))
   \<and> healthRouter_get (rt\<lparr>fault := Some (Error m s)\<rparr>) (Some coll)
       = \<lparr>status = 503,
          body = JObj [(''status'', JStr ''unhealthy''),
                       (''timestamp'', JStr (toISOString rt (now rt 0))),
                       (''database'', JStr ''disconnected''),
                       (''error'', JStr m)]\<rparr>
   \<and> healthRouter_get (rt\<lparr>fault := Some (NonError x)\<rparr>) (Some coll)
       = \<lparr>status = 503,
          body = JObj [(''status'', JStr ''unhealthy''),
                       (''timestamp'', JStr (toISOString rt (now rt 0))),
                       (''database'', JStr ''disconnected''),
                       (''error'', JStr ''Unknown error'')]\<rparr>"
proof -
  have 1: "post_handler (rt\<lparr>fault := Some e\<rparr>) db sensorData
     = (failure 500 ''Failed to save sensor data'', db)"
    by (simp add: post_handler_def post_try_def getDatabase_def insertOne_def split: option.splits)
  have 2: "get_handler (rt\<lparr>fault := Some e\<rparr>) db p = failure 500 ''Failed to query sensor data''"
    by (simp add: get_handler_def get_try_def getDatabase_def find_sorted_def split: option.splits)
  have 3: "sensorDataRouter_get_walls (rt\<lparr>fault := Some e\<rparr>) db = failure 500 ''Failed to get walls data''"
    by (simp add: sensorDataRouter_get_walls_def walls_try_def getDatabase_def aggregate_def
        split: option.splits)
  have 4: "post_handler rt None sensorData = (failure 500 ''Failed to save sensor data'', None)"
    by (simp add: post_handler_def post_try_def getDatabase_def)
  have 5: "get_handler rt None p = failure 500 ''Failed to query sensor data''"
    by (simp add: get_handler_def get_try_def getDatabase_def)
  have 6: "sensorDataRouter_get_walls rt None = failure 500 ''Failed to get walls data''"
    by (simp add: sensorDataRouter_get_walls_def walls_try_def getDatabase_def)
  have 7: "failure 500 msg = \<lparr>status = 500, body = JObj [(''success'', JBool False), (''error'', JStr msg)]\<rparr>"
    by (simp add: failure_def)
  have 8: "\<exists>issues. resp = \<lparr>status = 400,
             body = JObj [(''success'', JBool False), (''error'', JStr ''Validation failed''),
                          (''details'', JArr (map json_issue issues))]\<rparr>"
    if "validateRequest schema b = Inl resp"
    using that
    by (auto simp: validateRequest_def schema_parse_def validation_failed_def
             split: sum.splits parse_thrown.splits)
  have 9: "healthRouter_get (rt\<lparr>fault := Some (Error m s)\<rparr>) (Some coll)
       = \<lparr>status = 503,
          body = JObj [(''status'', JStr ''unhealthy''),
                       (''timestamp'', JStr (toISOString rt (now rt 0))),
                       (''database'', JStr ''disconnected''),
                       (''error'', JStr m)]\<rparr>"
    by (simp add: healthRouter_get_def health_try_def getDatabase_def ping_def)
  have 10: "healthRouter_get (rt\<lparr>fault := Some (NonError x)\<rparr>) (Some coll)
       = \<lparr>status = 503,
          body = JObj [(''status'', JStr ''unhealthy''),
                       (''timestamp'', JStr (toISOString rt (now rt 0))),
                       (''database'', JStr ''disconnected''),
                       (''error'', JStr ''Unknown error'')]\<rparr>"
    by (simp add: healthRouter_get_def health_try_def getDatabase_def ping_def)
  from 1 2 3 4 5 6 7 8 9 10 show ?thesis by blast
qed

lemma validate_bad_example:
  "validateRequest querySensorDataSchema (JObj [(''limit'', JStr ''0'')])
     = Inl (validation_failed [Issue TooSmall [''limit'']])"
  by (simp add: validateRequest_def schema_parse_def querySensorDataSchema_def z_object_def
      z_string_def z_number_def optional_def pipe_def transform_def parseInt_val_def obj_get_def
      parseInt10_def ws_width_def ascii_ws_def wide_ws_def is_digit_def decimal_def
      digit_val_def)

theorem failure_responses_witness:
  "validateRequest querySensorDataSchema (JObj [(''limit'', JStr ''0'')])
     = Inl (validation_failed [Issue TooSmall [''limit'']])
   \<and> (\<exists>issues. validation_failed [Issue TooSmall [''limit'']] = \<lparr>status = 400,
             body = JObj [(''success'', JBool False), (''error'', JStr ''Validation failed''),
                          (''details'', JArr (map json_issue issues))]\<rparr>)
   \<and> post_handler (example_runtime\<lparr>fault := Some example_fault\<rparr>) (Some example_log) example_reading
       = (failure 500 ''Failed to save sensor data'', Some example_log)
   \<and> get_handler (example_runtime\<lparr>fault := Some example_fault\<rparr>) (Some example_log) no_params
       = failure 500 ''Failed to query sensor data''
   \<and> sensorDataRouter_get_walls (example_runtime\<lparr>fault := Some example_fault\<rparr>) (Some example_log)
       = failure 500 ''Failed to get walls data''"
  using failure_responses[where rt = example_runtime and e = example_fault
      and db = "Some example_log" and sensorData = example_reading and p = no_params
      and schema = querySensorDataSchema and b = "JObj [(''limit'', JStr ''0'')]"
      and resp = "validation_failed [Issue TooSmall [''limit'']]"]
    validate_bad_example
  by blast

text \<open>
  C9 (as stated, refuted). When the driver fails with the message
  \<open>connect ECONNREFUSED 127.0.0.1:27017\<close>, the health check returns that text in its
  answer, which does not have the shape \<open>{success: false, error: m}\<close>.
\<close>

theorem health_error_text_counterexample:
  "healthRouter_get (example_runtime\<lparr>fault := Some example_fault\<rparr>) (Some example_log)
     = \<lparr>status = 503,
        body = JObj [(''status'', JStr ''unhealthy''),
                     (''timestamp'', JStr ''2024-01-01T00:00:00.000Z''),
                     (''database'', JStr ''disconnected''),
                     (''error'', JStr ''connect ECONNREFUSED 127.0.0.1:27017'')]\<rparr>
   \<and> message example_fault = ''connect ECONNREFUSED 127.0.0.1:27017''"
  by (simp add: healthRouter_get_def health_try_def getDatabase_def ping_def example_fault_def
      example_runtime_def)

end
